theory Spec2Isabelle
  imports
    Main
    "HOL-Library.Multiset"
    "HOL-Library.AList"
    "HOL-Library.Char_ord"
    "HOL-Library.List_Lexorder"
begin

section \<open>Python strings and built-ins used by \<^verbatim>\<open>Scrapper.py\<close>\<close>

text \<open>
  A Python \<^verbatim>\<open>str\<close> is modelled by \<^typ>\<open>string\<close>, one \<^typ>\<open>char\<close> per code
  point: \<^term>\<open>length\<close> is Python's \<^verbatim>\<open>len\<close>. The model covers the code points
  0 to 255; within that range the functions below are the built-ins of CPython 3.
\<close>

text \<open>\<^verbatim>\<open>str.isspace\<close> on one code point: the characters that \<^verbatim>\<open>strip()\<close> and
  \<^verbatim>\<open>split()\<close> without arguments treat as whitespace.\<close>

definition isspace :: "char \<Rightarrow> bool" where
  "isspace c = (c \<in> set [CHR 0x09, CHR 0x0A, CHR 0x0B, CHR 0x0C, CHR 0x0D,
                          CHR 0x1C, CHR 0x1D, CHR 0x1E, CHR 0x1F, CHR 0x20,
                          CHR 0x85, CHR 0xA0])"

text \<open>\<^verbatim>\<open>s.strip()\<close>\<close>

definition strip :: "string \<Rightarrow> string" where
  "strip s = rev (dropWhile isspace (rev (dropWhile isspace s)))"

text \<open>\<^verbatim>\<open>s.startswith(p)\<close>\<close>

definition startswith :: "string \<Rightarrow> string \<Rightarrow> bool" where
  "startswith s p = (take (length p) s = p)"

text \<open>\<^verbatim>\<open>sub in s\<close> for strings: \<open>sub\<close> occurs as a contiguous slice of \<open>s\<close>.\<close>

fun contains :: "string \<Rightarrow> string \<Rightarrow> bool" where
  "contains [] sub = (sub = [])"
| "contains (c # cs) sub = (startswith (c # cs) sub \<or> contains cs sub)"

text \<open>\<^verbatim>\<open>s.lower()\<close>: in the range 0 to 255 the cased characters are A to Z and the
  Latin-1 capitals 0xC0 to 0xDE without the multiplication sign 0xD7; each maps to
  the code point 32 above it.\<close>

definition upper_chars :: "string" where
  "upper_chars = ''ABCDEFGHIJKLMNOPQRSTUVWXYZ'' @
     [CHR 0xC0, CHR 0xC1, CHR 0xC2, CHR 0xC3, CHR 0xC4, CHR 0xC5, CHR 0xC6, CHR 0xC7,
      CHR 0xC8, CHR 0xC9, CHR 0xCA, CHR 0xCB, CHR 0xCC, CHR 0xCD, CHR 0xCE, CHR 0xCF,
      CHR 0xD0, CHR 0xD1, CHR 0xD2, CHR 0xD3, CHR 0xD4, CHR 0xD5, CHR 0xD6,
      CHR 0xD8, CHR 0xD9, CHR 0xDA, CHR 0xDB, CHR 0xDC, CHR 0xDD, CHR 0xDE]"

definition lower_chars :: "string" where
  "lower_chars = ''abcdefghijklmnopqrstuvwxyz'' @
     [CHR 0xE0, CHR 0xE1, CHR 0xE2, CHR 0xE3, CHR 0xE4, CHR 0xE5, CHR 0xE6, CHR 0xE7,
      CHR 0xE8, CHR 0xE9, CHR 0xEA, CHR 0xEB, CHR 0xEC, CHR 0xED, CHR 0xEE, CHR 0xEF,
      CHR 0xF0, CHR 0xF1, CHR 0xF2, CHR 0xF3, CHR 0xF4, CHR 0xF5, CHR 0xF6,
      CHR 0xF8, CHR 0xF9, CHR 0xFA, CHR 0xFB, CHR 0xFC, CHR 0xFD, CHR 0xFE]"

definition lower_char :: "char \<Rightarrow> char" where
  "lower_char c = (case map_of (zip upper_chars lower_chars) c of Some l \<Rightarrow> l | None \<Rightarrow> c)"

definition lower :: "string \<Rightarrow> string" where
  "lower s = map lower_char s"

text \<open>\<^verbatim>\<open>s.split()\<close>: the maximal runs of non-whitespace characters, in order. The
  first argument is the token being read.\<close>

fun split_acc :: "string \<Rightarrow> string \<Rightarrow> string list" where
  "split_acc cur [] = (if cur = [] then [] else [cur])"
| "split_acc cur (c # cs) =
     (if isspace c then (if cur = [] then split_acc [] cs else cur # split_acc [] cs)
      else split_acc (cur @ [c]) cs)"

definition split_ws :: "string \<Rightarrow> string list" where
  "split_ws s = split_acc [] s"

text \<open>\<^verbatim>\<open>s.split(sep)\<close> for a one-character separator: the pieces between the
  occurrences of \<open>sep\<close>; always at least one piece.\<close>

fun split_on :: "char \<Rightarrow> string \<Rightarrow> string list" where
  "split_on sep [] = [[]]"
| "split_on sep (c # cs) =
     (if c = sep then [] # split_on sep cs
      else (case split_on sep cs of p # ps \<Rightarrow> (c # p) # ps | [] \<Rightarrow> [[c]]))"

subsection \<open>Exceptions\<close>

text \<open>
  The exception classes a run can meet. All of them are subclasses of Python's
  \<^verbatim>\<open>Exception\<close>, so both \<^verbatim>\<open>except Exception\<close> and a bare \<^verbatim>\<open>except\<close> catch them. A
  computation that may raise returns \<open>exn + 'a\<close>, with \<open>Inl\<close> the raised exception.
\<close>

datatype exn =
    RequestException    \<comment> \<open>\<^verbatim>\<open>requests.get\<close> failed, or the markup could not be parsed\<close>
  | KeyError            \<comment> \<open>a tag attribute that is not there\<close>
  | IndexError
  | ValueError
  | OverflowError
  | FileNotFoundError
  | EmptyDataError      \<comment> \<open>\<^verbatim>\<open>pandas.read_csv\<close> on a file without a header line\<close>
  | ParserError         \<comment> \<open>\<^verbatim>\<open>pandas.read_csv\<close> on a ragged file\<close>

subsection \<open>Decimal integers: \<^verbatim>\<open>str(n)\<close> and \<^verbatim>\<open>int(s)\<close>\<close>

definition is_digit :: "char \<Rightarrow> bool" where
  "is_digit c = (c \<in> set ''0123456789'')"

definition digit_val :: "char \<Rightarrow> nat" where
  "digit_val c = of_char c - 48"

definition digit_char :: "nat \<Rightarrow> char" where
  "digit_char d = ''0123456789'' ! d"

text \<open>The value of a string of decimal digits, most significant first.\<close>

definition digits_val :: "string \<Rightarrow> nat" where
  "digits_val ds = foldl (\<lambda>acc c. 10 * acc + digit_val c) 0 ds"

fun str_nat :: "nat \<Rightarrow> string" where
  "str_nat n = (if n < 10 then [digit_char n] else str_nat (n div 10) @ [digit_char (n mod 10)])"

declare str_nat.simps [simp del]

text \<open>\<^verbatim>\<open>str(n)\<close> for an \<^verbatim>\<open>int\<close>.\<close>

definition str_int :: "int \<Rightarrow> string" where
  "str_int n = (if n < 0 then CHR ''-'' # str_nat (nat (- n)) else str_nat (nat n))"

text \<open>A digit part of a numeric literal: decimal digits, with single underscores
  allowed between two digits.\<close>

fun digitpart_from :: "bool \<Rightarrow> string \<Rightarrow> bool" where
  "digitpart_from after_digit [] = after_digit"
| "digitpart_from after_digit (c # cs) =
     (if is_digit c then digitpart_from True cs
      else if c = CHR ''_'' \<and> after_digit then digitpart_from False cs
      else False)"

definition digitpart :: "string \<Rightarrow> bool" where
  "digitpart s = digitpart_from False s"

definition digitpart_val :: "string \<Rightarrow> nat" where
  "digitpart_val s = digits_val (filter is_digit s)"

text \<open>An optional sign in front of a literal: whether it is negative, and the rest.\<close>

definition take_sign :: "string \<Rightarrow> bool \<times> string" where
  "take_sign s =
     (case s of
        c # cs \<Rightarrow> (if c = CHR ''-'' then (True, cs) else if c = CHR ''+'' then (False, cs) else (False, s))
      | [] \<Rightarrow> (False, s))"

text \<open>The whitespace that \<^verbatim>\<open>int(s)\<close> and \<^verbatim>\<open>float(s)\<close> ignore around a literal. It is
  narrower than that of \<^verbatim>\<open>strip()\<close>: the separators 0x1C to 0x1F are not part of it.\<close>

definition num_space :: "char \<Rightarrow> bool" where
  "num_space c = (c \<in> set [CHR 0x09, CHR 0x0A, CHR 0x0B, CHR 0x0C, CHR 0x0D, CHR 0x20,
                            CHR 0x85, CHR 0xA0])"

definition num_strip :: "string \<Rightarrow> string" where
  "num_strip s = rev (dropWhile num_space (rev (dropWhile num_space s)))"

text \<open>\<^verbatim>\<open>int(s)\<close> for a string: surrounding whitespace is ignored, then an optional
  sign and a digit part; anything else raises \<^verbatim>\<open>ValueError\<close>.\<close>

definition py_int :: "string \<Rightarrow> exn + int" where
  "py_int s =
     (case take_sign (num_strip s) of
        (neg, body) \<Rightarrow>
          if digitpart body
          then Inr (if neg then - int (digitpart_val body) else int (digitpart_val body))
          else Inl ValueError)"

subsection \<open>Floating point: \<^verbatim>\<open>float(s)\<close> and \<^verbatim>\<open>int(x)\<close>\<close>

text \<open>
  A Python \<^verbatim>\<open>float\<close> is an IEEE 754 binary64 number. A finite one is kept as its sign,
  its significand \<open>m\<close> and its binary exponent \<open>p\<close>: it is \<open>\<plusminus> m * 2 ^ p\<close>.
\<close>

datatype pyfloat = Fin bool nat int | Infinite bool | Nan

fun bit_length :: "nat \<Rightarrow> nat" where
  "bit_length n = (if n = 0 then 0 else Suc (bit_length (n div 2)))"

declare bit_length.simps [simp del]

text \<open>\<open>floor_log2 num den\<close> is the integer \<open>e\<close> with \<open>2 ^ e \<le> num / den < 2 ^ (e + 1)\<close>,
  for positive \<open>num\<close> and \<open>den\<close>.\<close>

definition floor_log2 :: "nat \<Rightarrow> nat \<Rightarrow> int" where
  "floor_log2 num den =
     (let e0 = int (bit_length num) - int (bit_length den) in
      if (if 0 \<le> e0 then den * 2 ^ nat e0 \<le> num else den \<le> num * 2 ^ nat (- e0))
      then e0 else e0 - 1)"

text \<open>The quotient \<open>a / b\<close> rounded to the nearest integer, a tie to the even one.\<close>

definition round_half_even :: "nat \<Rightarrow> nat \<Rightarrow> nat" where
  "round_half_even a b =
     (let k = a div b; r = a mod b in
      if 2 * r < b then k else if b < 2 * r then k + 1 else if even k then k else k + 1)"

text \<open>
  The binary64 number nearest to \<open>\<plusminus> num / den\<close> (correctly rounded, as CPython's
  string conversion is): 53 significant bits, exponents down to \<open>-1074\<close> for the
  subnormal numbers, and infinity from \<open>2 ^ 1024\<close> on.
\<close>

definition to_double :: "bool \<Rightarrow> nat \<Rightarrow> nat \<Rightarrow> pyfloat" where
  "to_double neg num den =
     (if num = 0 then Fin neg 0 0
      else
        let e = floor_log2 num den;
            p = max (e - 52) (- 1074);
            m = (if 0 \<le> p then round_half_even num (den * 2 ^ nat p)
                 else round_half_even (num * 2 ^ nat (- p)) den)
        in if 0 \<le> p \<and> 2 ^ 1024 \<le> m * 2 ^ nat p then Infinite neg else Fin neg m p)"

text \<open>The mantissa of a decimal literal: \<^verbatim>\<open>12\<close>, \<^verbatim>\<open>12.\<close>, \<^verbatim>\<open>12.5\<close> or \<^verbatim>\<open>.5\<close>. The result is
  the digits of the integer part and of the fraction.\<close>

definition parse_mantissa :: "string \<Rightarrow> (string \<times> string) option" where
  "parse_mantissa s =
     (case split_on CHR ''.'' s of
        [i] \<Rightarrow> if digitpart i then Some (filter is_digit i, []) else None
      | [i, f] \<Rightarrow>
          if (i = [] \<or> digitpart i) \<and> (f = [] \<or> digitpart f) \<and> \<not> (i = [] \<and> f = [])
          then Some (filter is_digit i, filter is_digit f) else None
      | _ \<Rightarrow> None)"

text \<open>The exponent of a decimal literal, the text after \<^verbatim>\<open>e\<close> or \<^verbatim>\<open>E\<close>: an optional sign
  and a digit part.\<close>

definition parse_exponent :: "string \<Rightarrow> int option" where
  "parse_exponent s =
     (case take_sign s of
        (neg, ds) \<Rightarrow>
          if digitpart ds
          then Some (if neg then - int (digitpart_val ds) else int (digitpart_val ds))
          else None)"

definition is_exp_mark :: "char \<Rightarrow> bool" where
  "is_exp_mark c = (c = CHR ''e'' \<or> c = CHR ''E'')"

text \<open>\<^verbatim>\<open>float(s)\<close> for a string: surrounding whitespace is ignored; then an optional
  sign and \<^verbatim>\<open>inf\<close>, \<^verbatim>\<open>infinity\<close> or \<^verbatim>\<open>nan\<close> in any case, or a decimal literal with an
  optional exponent. Anything else raises \<^verbatim>\<open>ValueError\<close>.\<close>

definition py_float :: "string \<Rightarrow> exn + pyfloat" where
  "py_float s =
     (case take_sign (num_strip s) of
        (neg, body) \<Rightarrow>
          if lower body = ''inf'' \<or> lower body = ''infinity'' then Inr (Infinite neg)
          else if lower body = ''nan'' then Inr Nan
          else
            let mant = takeWhile (\<lambda>c. \<not> is_exp_mark c) body;
                rest = dropWhile (\<lambda>c. \<not> is_exp_mark c) body
            in (case (parse_mantissa mant, if rest = [] then Some 0 else parse_exponent (tl rest)) of
                  (Some (i, f), Some x) \<Rightarrow>
                    let m = digits_val (i @ f); x' = x - int (length f)
                    in Inr (if 0 \<le> x' then to_double neg (m * 10 ^ nat x') 1
                            else to_double neg m (10 ^ nat (- x')))
                | _ \<Rightarrow> Inl ValueError))"

text \<open>\<^verbatim>\<open>int(x)\<close> for a float: the value truncated towards zero; an infinity raises
  \<^verbatim>\<open>OverflowError\<close> and a NaN raises \<^verbatim>\<open>ValueError\<close>.\<close>

definition int_of_float :: "pyfloat \<Rightarrow> exn + int" where
  "int_of_float x =
     (case x of
        Fin neg m p \<Rightarrow>
          let t = (if 0 \<le> p then m * 2 ^ nat p else m div 2 ^ nat (- p))
          in Inr (if neg then - int t else int t)
      | Infinite _ \<Rightarrow> Inl OverflowError
      | Nan \<Rightarrow> Inl ValueError)"

section \<open>The program's environment\<close>

text \<open>
  \<^verbatim>\<open>requests.get(url)\<close> followed by \<^verbatim>\<open>BeautifulSoup(r.text, "html.parser")\<close> is one
  lookup in the web: it raises, or it gives the parsed page. Of a parsed page the
  program reads three things, which are taken as the parser returns them:
  \<^item> \<open>a_tags\<close>: every \<^verbatim>\<open>a\<close> tag in document order, as its \<^verbatim>\<open>.string\<close> (\<open>None\<close> when the
    tag has no single string) and its \<^verbatim>\<open>href\<close> attribute (\<open>None\<close> when it has none);
  \<^item> \<open>li_anchor_texts\<close>: the \<^verbatim>\<open>.text\<close> of each tag of \<^verbatim>\<open>soup.select("ul li a")\<close>, in order;
  \<^item> \<open>table_rows\<close>: for each row of \<^verbatim>\<open>soup.select("table tr")\<close>, in order, the
    \<^verbatim>\<open>get_text(" ", strip=True)\<close> of its \<^verbatim>\<open>td\<close> and \<^verbatim>\<open>th\<close> cells.
\<close>

record soup =
  a_tags :: "(string option \<times> string option) list"
  li_anchor_texts :: "string list"
  table_rows :: "string list list"

type_synonym web = "string \<Rightarrow> exn + soup"

text \<open>A value in a row of a \<^verbatim>\<open>DataFrame\<close>: a string, a number that the CSV reader
  parsed from the given field text, a boolean, or the missing value.\<close>

datatype cell = Str string | Number string | Boolean bool | NaN

type_synonym pydict = "(string \<times> cell) list"

text \<open>What a run does to the outside world, in order: page requests, reads of
  checkpoint files and \<^verbatim>\<open>to_csv\<close> writes (the path and the rows written). Console
  output and the clock are not modelled.\<close>

datatype event = Get string | ReadCsv string | ToCsv string "pydict list"

text \<open>
  The state a run works on: the files of the checkpoint directory (file name and
  content, a CSV file being its lines of fields, the header line first), the
  module-level list \<^verbatim>\<open>skipped_entries\<close>, and the log of events so far.
\<close>

record world =
  checkpoints :: "(string \<times> string list list) list"
  skipped_entries :: "string list"
  io_log :: "event list"

text \<open>The thread pool runs the fetches of one batch concurrently. The model
  linearises it: for a batch number and the identifiers of the batch, the scheduler
  gives the order in which the fetches take effect and complete.\<close>

type_synonym sched = "int \<Rightarrow> string list \<Rightarrow> string list"

text \<open>\<^verbatim>\<open>pd.read_csv(path).to_dict("records")\<close> on the content of a file.\<close>

type_synonym reader = "string list list \<Rightarrow> exn + pydict list"

definition BASE_URL :: "string" where
  "BASE_URL = ''http://metabolomics.jp''"

definition LISTING_URL :: "string" where
  "LISTING_URL = ''http://metabolomics.jp/mediawiki/index.php?title=Special:WhatLinksHere/Index:FL&namespace=0&limit=500''"

definition checkpoint_dir :: "string" where
  "checkpoint_dir = ''checkpoints''"

text \<open>\<^verbatim>\<open>os.path.join(a, b)\<close> and \<^verbatim>\<open>os.path.basename(p)\<close> on POSIX.\<close>

definition path_join :: "string \<Rightarrow> string \<Rightarrow> string" where
  "path_join a b = a @ ''/'' @ b"

definition basename :: "string \<Rightarrow> string" where
  "basename p = rev (takeWhile (\<lambda>c. c \<noteq> CHR ''/'') (rev p))"

definition requested :: "string \<Rightarrow> world \<Rightarrow> world" where
  "requested url w = w\<lparr>io_log := io_log w @ [Get url]\<rparr>"

section \<open>The Listing Paginator: \<^verbatim>\<open>get_listing_pages\<close>\<close>

text \<open>The filter of \<^verbatim>\<open>soup.find("a", string=lambda x: x and "next 500" in x.lower())\<close>.\<close>

definition is_next_link :: "string option \<times> string option \<Rightarrow> bool" where
  "is_next_link a = (case fst a of None \<Rightarrow> False | Some x \<Rightarrow> x \<noteq> [] \<and> contains (lower x) ''next 500'')"

text \<open>The \<^verbatim>\<open>while True\<close> loop. It has no bound, so it is a partial function: \<open>None\<close>
  is the loop that never ends.\<close>

partial_function (option) listing_loop ::
  "web \<Rightarrow> string list \<Rightarrow> world \<Rightarrow> ((exn + string list) \<times> world) option" where
  "listing_loop web urls w =
     (case web (last urls) of
        Inl e \<Rightarrow> Some (Inl e, requested (last urls) w)
      | Inr page \<Rightarrow>
          (case find is_next_link (a_tags page) of
             None \<Rightarrow> Some (Inr urls, requested (last urls) w)
           | Some next_link \<Rightarrow>
               (case snd next_link of
                  None \<Rightarrow> Some (Inl KeyError, requested (last urls) w)
                | Some href \<Rightarrow> listing_loop web (urls @ [BASE_URL @ href]) (requested (last urls) w))))"

declare listing_loop.simps [code]

definition get_listing_pages :: "web \<Rightarrow> world \<Rightarrow> ((exn + string list) \<times> world) option" where
  "get_listing_pages web w = listing_loop web [LISTING_URL] w"

section \<open>The Identifier Extractor: \<^verbatim>\<open>extract_ids\<close>\<close>

text \<open>
  The loop of \<^verbatim>\<open>extract_ids\<close> over the texts of the anchors that
  \<^verbatim>\<open>soup.select("ul li a")\<close> returns, in document order: each text is stripped and
  appended to \<open>ids\<close> when it has twelve characters and starts with \<^verbatim>\<open>FL\<close>.
\<close>

definition valid_id :: "string \<Rightarrow> bool" where
  "valid_id fid = (length fid = 12 \<and> startswith fid ''FL'')"

fun collect_ids :: "string list \<Rightarrow> string list \<Rightarrow> string list" where
  "collect_ids ids [] = ids"
| "collect_ids ids (text # rest) =
     (let fid = strip text in
      if valid_id fid then collect_ids (ids @ [fid]) rest else collect_ids ids rest)"

definition extract_ids :: "web \<Rightarrow> string \<Rightarrow> world \<Rightarrow> (exn + string list) \<times> world" where
  "extract_ids web listing_url w =
     (case web listing_url of
        Inl e \<Rightarrow> (Inl e, requested listing_url w)
      | Inr page \<Rightarrow> (Inr (collect_ids [] (li_anchor_texts page)), requested listing_url w))"

section \<open>The Entry Fetcher: \<^verbatim>\<open>fetch_entry\<close>\<close>

text \<open>A record as \<^verbatim>\<open>fetch_entry\<close> returns it: a dictionary with these four keys, each
  holding a string.\<close>

record entry =
  Flavonoid_ID :: string
  Systematic_Name :: string
  SMILES :: string
  Average_Mass :: string

definition entry_url :: "string \<Rightarrow> string" where
  "entry_url fid = BASE_URL @ ''/wiki/'' @ fid"

text \<open>\<^verbatim>\<open>str(int(float(value.split()[0])))\<close>, with every exception it can raise.\<close>

definition parse_avg_mass :: "string \<Rightarrow> exn + string" where
  "parse_avg_mass v =
     (case split_ws v of
        [] \<Rightarrow> Inl IndexError
      | tok # _ \<Rightarrow>
          (case py_float tok of
             Inl e \<Rightarrow> Inl e
           | Inr x \<Rightarrow> (case int_of_float x of Inl e \<Rightarrow> Inl e | Inr n \<Rightarrow> Inr (str_int n))))"

text \<open>The three variables of the scan, \<^verbatim>\<open>smiles\<close>, \<^verbatim>\<open>systematic_name\<close> and \<^verbatim>\<open>avg_mass\<close>.\<close>

record fields =
  smiles :: string
  systematic_name :: string
  avg_mass :: string

text \<open>The body of the loop over the rows, for the cell texts of one row. The bare
  \<^verbatim>\<open>except: pass\<close> around the mass leaves the variables as they are.\<close>

definition scan_row :: "fields \<Rightarrow> string list \<Rightarrow> fields" where
  "scan_row fs cells =
     (if 2 \<le> length cells then
        let key = lower (cells ! 0); v = cells ! 1 in
        if contains key ''smiles'' then fs\<lparr>smiles := v\<rparr>
        else if contains key ''systematic name'' then fs\<lparr>systematic_name := v\<rparr>
        else if contains key ''average mass'' then
          (case parse_avg_mass v of Inl _ \<Rightarrow> fs | Inr m \<Rightarrow> fs\<lparr>avg_mass := m\<rparr>)
        else fs
      else fs)"

definition scan_rows :: "string list list \<Rightarrow> fields" where
  "scan_rows rows = foldl scan_row \<lparr>smiles = [], systematic_name = [], avg_mass = []\<rparr> rows"

definition skip :: "string \<Rightarrow> world \<Rightarrow> world" where
  "skip fid w = w\<lparr>skipped_entries := skipped_entries w @ [fid]\<rparr>"

text \<open>The body of the \<^verbatim>\<open>try\<close> block.\<close>

definition fetch_entry_try :: "web \<Rightarrow> string \<Rightarrow> world \<Rightarrow> (exn + entry option) \<times> world" where
  "fetch_entry_try web fid w =
     (case web (entry_url fid) of
        Inl e \<Rightarrow> (Inl e, requested (entry_url fid) w)
      | Inr page \<Rightarrow>
          (let fs = scan_rows (table_rows page) in
           if smiles fs \<noteq> [] \<or> systematic_name fs \<noteq> []
           then (Inr (Some \<lparr>Flavonoid_ID = fid, Systematic_Name = systematic_name fs,
                             SMILES = smiles fs, Average_Mass = avg_mass fs\<rparr>),
                 requested (entry_url fid) w)
           else (Inr None, skip fid (requested (entry_url fid) w))))"

text \<open>The whole function: \<^verbatim>\<open>except Exception\<close> records the identifier and returns
  \<^verbatim>\<open>None\<close>.\<close>

definition fetch_entry :: "web \<Rightarrow> string \<Rightarrow> world \<Rightarrow> (exn + entry option) \<times> world" where
  "fetch_entry web fid w =
     (case fetch_entry_try web fid w of
        (Inl e, w') \<Rightarrow> (Inr None, skip fid w')
      | (Inr r, w') \<Rightarrow> (Inr r, w'))"

section \<open>The Checkpoint Store\<close>

definition checkpoint_name :: "int \<Rightarrow> string" where
  "checkpoint_name batch_id = ''checkpoint_'' @ str_int batch_id @ ''.csv''"

definition checkpoint_path :: "int \<Rightarrow> string" where
  "checkpoint_path batch_id = path_join checkpoint_dir (checkpoint_name batch_id)"

definition entry_columns :: "string list" where
  "entry_columns = [''Flavonoid_ID'', ''Systematic_Name'', ''SMILES'', ''Average_Mass'']"

definition entry_values :: "entry \<Rightarrow> string list" where
  "entry_values e = [Flavonoid_ID e, Systematic_Name e, SMILES e, Average_Mass e]"

text \<open>A record of \<^verbatim>\<open>fetch_entry\<close> as a general dictionary.\<close>

definition entry_dict :: "entry \<Rightarrow> pydict" where
  "entry_dict e = zip entry_columns (map Str (entry_values e))"

text \<open>The file that \<^verbatim>\<open>pd.DataFrame(data).to_csv(path, index=False)\<close> writes for a
  non-empty list of such records: the header line and one line of fields for each
  record. The quoting of fields in the file's text is not modelled: a field is the
  string that was written.\<close>

definition to_csv_entries :: "entry list \<Rightarrow> string list list" where
  "to_csv_entries data = entry_columns # map entry_values data"

definition save_checkpoint :: "int \<Rightarrow> entry list \<Rightarrow> world \<Rightarrow> world" where
  "save_checkpoint batch_id data w =
     (if data = [] then w
      else w\<lparr>checkpoints := AList.update (checkpoint_name batch_id) (to_csv_entries data) (checkpoints w),
             io_log := io_log w @ [ToCsv (checkpoint_path batch_id) (map entry_dict data)]\<rparr>)"

text \<open>\<^verbatim>\<open>sorted(glob.glob(os.path.join(checkpoint_dir, "checkpoint_*.csv")))\<close>: the
  paths of the files of the directory whose names start with \<^verbatim>\<open>checkpoint_\<close> and
  end with \<^verbatim>\<open>.csv\<close>, the two not overlapping.\<close>

definition glob_match :: "string \<Rightarrow> bool" where
  "glob_match name =
     (15 \<le> length name \<and> startswith name ''checkpoint_'' \<and> startswith (rev name) (rev ''.csv''))"

definition glob_checkpoints :: "world \<Rightarrow> string list" where
  "glob_checkpoints w =
     sort (map (path_join checkpoint_dir) (filter glob_match (remdups (map fst (checkpoints w)))))"

text \<open>\<^verbatim>\<open>int(os.path.basename(f).split("_")[1].split(".")[0])\<close>\<close>

definition batch_num_of :: "string \<Rightarrow> exn + int" where
  "batch_num_of f =
     (case split_on CHR ''_'' (basename f) of
        _ # p # _ \<Rightarrow> (case split_on CHR ''.'' p of q # _ \<Rightarrow> py_int q | [] \<Rightarrow> Inl IndexError)
      | _ \<Rightarrow> Inl IndexError)"

text \<open>The loop of \<^verbatim>\<open>load_completed_batches\<close>: a file whose number cannot be read is
  passed over.\<close>

definition add_completed :: "int set \<Rightarrow> string \<Rightarrow> int set" where
  "add_completed completed f =
     (case batch_num_of f of Inl _ \<Rightarrow> completed | Inr batch_num \<Rightarrow> insert batch_num completed)"

definition load_completed_batches :: "world \<Rightarrow> int set" where
  "load_completed_batches w = foldl add_completed {} (glob_checkpoints w)"

text \<open>\<^verbatim>\<open>pd.read_csv(os.path.join(checkpoint_dir, f"checkpoint_{batch_num}.csv"))\<close>
  followed by \<^verbatim>\<open>df.to_dict("records")\<close>.\<close>

definition load_checkpoint :: "reader \<Rightarrow> int \<Rightarrow> world \<Rightarrow> (exn + pydict list) \<times> world" where
  "load_checkpoint rd batch_num w =
     (case map_of (checkpoints w) (checkpoint_name batch_num) of
        None \<Rightarrow> (Inl FileNotFoundError, w\<lparr>io_log := io_log w @ [ReadCsv (checkpoint_path batch_num)]\<rparr>)
      | Some content \<Rightarrow> (rd content, w\<lparr>io_log := io_log w @ [ReadCsv (checkpoint_path batch_num)]\<rparr>))"

section \<open>The Batch Scheduler and the Aggregator: \<^verbatim>\<open>main\<close>\<close>

text \<open>The loop \<^verbatim>\<open>for page in listing_pages\<close> with \<^verbatim>\<open>all_ids.extend(ids)\<close>.\<close>

fun extract_all :: "web \<Rightarrow> string list \<Rightarrow> string list \<Rightarrow> world \<Rightarrow> (exn + string list) \<times> world" where
  "extract_all web [] all_ids w = (Inr all_ids, w)"
| "extract_all web (page # pages) all_ids w =
     (case extract_ids web page w of
        (Inl e, w') \<Rightarrow> (Inl e, w')
      | (Inr ids, w') \<Rightarrow> extract_all web pages (all_ids @ ids) w')"

text \<open>The pool of one batch, over the identifiers in the order the scheduler gives:
  \<^verbatim>\<open>future.result()\<close> hands on what \<^verbatim>\<open>fetch_entry\<close> returned or raised, and a result
  that is not \<^verbatim>\<open>None\<close> is appended to \<^verbatim>\<open>batch_data\<close>.\<close>

fun run_pool :: "web \<Rightarrow> string list \<Rightarrow> entry list \<Rightarrow> world \<Rightarrow> (exn + entry list) \<times> world" where
  "run_pool web [] batch_data w = (Inr batch_data, w)"
| "run_pool web (fid # fids) batch_data w =
     (case fetch_entry web fid w of
        (Inl e, w') \<Rightarrow> (Inl e, w')
      | (Inr None, w') \<Rightarrow> run_pool web fids batch_data w'
      | (Inr (Some result), w') \<Rightarrow> run_pool web fids (batch_data @ [result]) w')"

text \<open>The body of \<^verbatim>\<open>for i in range(0, len(all_ids), batch_size)\<close>.\<close>

definition batch_step ::
  "web \<Rightarrow> sched \<Rightarrow> reader \<Rightarrow> int set \<Rightarrow> nat \<Rightarrow> string list \<Rightarrow> nat \<Rightarrow> pydict list \<Rightarrow> world
     \<Rightarrow> (exn + pydict list) \<times> world" where
  "batch_step web sch rd completed_batches batch_size all_ids i all_data w =
     (let batch_num = int (i div batch_size) + 1;
          batch_ids = take batch_size (drop i all_ids)
      in if batch_num \<in> completed_batches
         then (case load_checkpoint rd batch_num w of
                 (Inl e, w') \<Rightarrow> (Inl e, w')
               | (Inr records, w') \<Rightarrow> (Inr (all_data @ records), w'))
         else (case run_pool web (sch batch_num batch_ids) [] w of
                 (Inl e, w') \<Rightarrow> (Inl e, w')
               | (Inr batch_data, w') \<Rightarrow>
                   (Inr (all_data @ map entry_dict batch_data), save_checkpoint batch_num batch_data w')))"

text \<open>\<^verbatim>\<open>range(0, stop, step)\<close> for a positive step.\<close>

definition py_range :: "nat \<Rightarrow> nat \<Rightarrow> nat list" where
  "py_range stop step = map (\<lambda>k. k * step) [0..<(stop + step - 1) div step]"

fun batch_loop ::
  "web \<Rightarrow> sched \<Rightarrow> reader \<Rightarrow> int set \<Rightarrow> nat \<Rightarrow> string list \<Rightarrow> nat list \<Rightarrow> pydict list \<Rightarrow> world
     \<Rightarrow> (exn + pydict list) \<times> world" where
  "batch_loop web sch rd completed_batches batch_size all_ids [] all_data w = (Inr all_data, w)"
| "batch_loop web sch rd completed_batches batch_size all_ids (i # is) all_data w =
     (case batch_step web sch rd completed_batches batch_size all_ids i all_data w of
        (Inl e, w') \<Rightarrow> (Inl e, w')
      | (Inr all_data', w') \<Rightarrow> batch_loop web sch rd completed_batches batch_size all_ids is all_data' w')"

text \<open>The loop over the batches, from \<^verbatim>\<open>all_data = []\<close>. A step of zero makes
  \<^verbatim>\<open>range\<close> raise.\<close>

definition run_batches ::
  "web \<Rightarrow> sched \<Rightarrow> reader \<Rightarrow> int set \<Rightarrow> nat \<Rightarrow> string list \<Rightarrow> world \<Rightarrow> (exn + pydict list) \<times> world" where
  "run_batches web sch rd completed_batches batch_size all_ids w =
     (if batch_size = 0 then (Inl ValueError, w)
      else batch_loop web sch rd completed_batches batch_size all_ids
             (py_range (length all_ids) batch_size) [] w)"

definition final_file :: "string" where
  "final_file = ''flavonoids_final.csv''"

definition skipped_file :: "string" where
  "skipped_file = ''skipped_entries.csv''"

text \<open>The end of \<^verbatim>\<open>main\<close>: the merged table, then the skipped identifiers when there
  are any.\<close>

definition write_outputs :: "pydict list \<Rightarrow> world \<Rightarrow> world" where
  "write_outputs all_data w =
     w\<lparr>io_log := io_log w @ [ToCsv final_file all_data] @
          (if skipped_entries w \<noteq> []
           then [ToCsv skipped_file (map (\<lambda>fid. [(''Skipped_IDs'', Str fid)]) (skipped_entries w))]
           else [])\<rparr>"

text \<open>What \<^verbatim>\<open>main\<close> does once the listing pages are known.\<close>

definition main_after_listing ::
  "web \<Rightarrow> sched \<Rightarrow> reader \<Rightarrow> string list \<Rightarrow> world \<Rightarrow> (exn + unit) \<times> world" where
  "main_after_listing web sch rd listing_pages w =
     (case extract_all web listing_pages [] w of
        (Inl e, w1) \<Rightarrow> (Inl e, w1)
      | (Inr all_ids, w1) \<Rightarrow>
          (case run_batches web sch rd (load_completed_batches w1) 500 all_ids w1 of
             (Inl e, w2) \<Rightarrow> (Inl e, w2)
           | (Inr all_data, w2) \<Rightarrow> (Inr (), write_outputs all_data w2)))"

text \<open>A run. \<open>None\<close> is the run that never leaves the paginator; an exception that
  reaches the top ends the run with \<open>Inl\<close>.\<close>

definition main :: "web \<Rightarrow> sched \<Rightarrow> reader \<Rightarrow> world \<Rightarrow> ((exn + unit) \<times> world) option" where
  "main web sch rd w =
     (case get_listing_pages web w of
        None \<Rightarrow> None
      | Some (Inl e, w') \<Rightarrow> Some (Inl e, w')
      | Some (Inr listing_pages, w') \<Rightarrow> Some (main_after_listing web sch rd listing_pages w'))"

section \<open>The CSV reader: \<^verbatim>\<open>pd.read_csv\<close> with its defaults\<close>

text \<open>
  \<^verbatim>\<open>pd.read_csv(path)\<close> is called without arguments, so the reader infers the type
  of every column from the text of its fields, and \<^verbatim>\<open>to_dict("records")\<close> hands the
  typed values on. The model follows the defaults of pandas 2: the markers of a
  missing value, then per column the attempts integer or float, boolean, and text.
  It covers files as \<^verbatim>\<open>save_checkpoint\<close> writes them, a header line and rows with as
  many fields as the header; a file with rows of another length is refused here.
\<close>

text \<open>The field texts that stand for a missing value (\<^verbatim>\<open>STR_NA_VALUES\<close>).\<close>

definition na_values :: "string list" where
  "na_values = [[], ''#N/A'', ''#N/A N/A'', ''#NA'', ''-1.#IND'', ''-1.#QNAN'', ''-NaN'', ''-nan'',
                ''1.#IND'', ''1.#QNAN'', ''<NA>'', ''N/A'', ''NA'', ''NULL'', ''NaN'', ''None'',
                ''n/a'', ''nan'', ''null'']"

definition pd_is_na :: "string \<Rightarrow> bool" where
  "pd_is_na s = (s \<in> set na_values)"

text \<open>A field that reads as a number: a decimal integer or float literal, or a
  signed infinity, without underscores.\<close>

definition pd_is_number :: "string \<Rightarrow> bool" where
  "pd_is_number s =
     (CHR ''_'' \<notin> set s \<and> (case py_float s of Inl _ \<Rightarrow> False | Inr x \<Rightarrow> x \<noteq> Nan))"

definition pd_is_bool :: "string \<Rightarrow> bool" where
  "pd_is_bool s = (s \<in> set [''True'', ''TRUE'', ''true'', ''False'', ''FALSE'', ''false''])"

definition pd_bool :: "string \<Rightarrow> bool" where
  "pd_bool s = (s \<in> set [''True'', ''TRUE'', ''true''])"

text \<open>The values of one column. A missing field is \<open>NaN\<close> in every column; the other
  fields are numbers when all of them read as numbers, booleans when all of them
  read as booleans, and their text otherwise.\<close>

definition infer_column :: "string list \<Rightarrow> cell list" where
  "infer_column col =
     (let present = filter (\<lambda>s. \<not> pd_is_na s) col in
      if list_all pd_is_number present
      then map (\<lambda>s. if pd_is_na s then NaN else Number s) col
      else if list_all pd_is_bool present
      then map (\<lambda>s. if pd_is_na s then NaN else Boolean (pd_bool s)) col
      else map (\<lambda>s. if pd_is_na s then NaN else Str s) col)"


section \<open>Notions used to state the properties\<close>

text \<open>The conditions under which the body of the row loop assigns each of the
  three variables: the branch of the \<^verbatim>\<open>if\<close> chain that a row takes.\<close>

definition sets_smiles :: "string list \<Rightarrow> bool" where
  "sets_smiles cells = (2 \<le> length cells \<and> contains (lower (cells ! 0)) ''smiles'')"

definition sets_systematic_name :: "string list \<Rightarrow> bool" where
  "sets_systematic_name cells =
     (2 \<le> length cells \<and> \<not> contains (lower (cells ! 0)) ''smiles''
      \<and> contains (lower (cells ! 0)) ''systematic name'')"

definition reads_avg_mass :: "string list \<Rightarrow> bool" where
  "reads_avg_mass cells =
     (2 \<le> length cells \<and> \<not> contains (lower (cells ! 0)) ''smiles''
      \<and> \<not> contains (lower (cells ! 0)) ''systematic name''
      \<and> contains (lower (cells ! 0)) ''average mass'')"

definition sets_avg_mass :: "string list \<Rightarrow> bool" where
  "sets_avg_mass cells = (reads_avg_mass cells \<and> \<not> isl (parse_avg_mass (cells ! 1)))"

definition parsed_mass :: "string \<Rightarrow> string" where
  "parsed_mass v = (case parse_avg_mass v of Inl _ \<Rightarrow> [] | Inr m \<Rightarrow> m)"

text \<open>What \<^verbatim>\<open>fetch_entry\<close> returns for an identifier: its result in a fresh world.\<close>

definition entry_of :: "web \<Rightarrow> string \<Rightarrow> entry option" where
  "entry_of web fid =
     (case fst (fetch_entry web fid \<lparr>checkpoints = [], skipped_entries = [], io_log = []\<rparr>) of
        Inl _ \<Rightarrow> None
      | Inr r \<Rightarrow> r)"

text \<open>The batch that the loop index \<open>i\<close> stands for: its number and its
  identifiers, as the loop body computes them.\<close>

definition batch_num_at :: "nat \<Rightarrow> nat \<Rightarrow> int" where
  "batch_num_at batch_size i = int (i div batch_size) + 1"

definition batch_ids_at :: "nat \<Rightarrow> string list \<Rightarrow> nat \<Rightarrow> string list" where
  "batch_ids_at batch_size all_ids i = take batch_size (drop i all_ids)"


text \<open>The records that the pool collects for a list of identifiers.\<close>

definition fetched :: "web \<Rightarrow> string list \<Rightarrow> entry list" where
  "fetched web fids = List.map_filter (entry_of web) fids"

text \<open>Whether an event writes the file of the given path, and whether it writes
  one of the two final artifacts.\<close>

definition writes_to :: "string \<Rightarrow> event \<Rightarrow> bool" where
  "writes_to path e = (case e of ToCsv p _ \<Rightarrow> p = path | _ \<Rightarrow> False)"

definition is_output :: "event \<Rightarrow> bool" where
  "is_output e = (writes_to final_file e \<or> writes_to skipped_file e)"



text \<open>The batches that a run of the loop over the given indices completes anew:
  those not complete before for which the pool collects a record.\<close>

definition newly_completed ::
  "web \<Rightarrow> sched \<Rightarrow> int set \<Rightarrow> nat \<Rightarrow> string list \<Rightarrow> nat list \<Rightarrow> int set" where
  "newly_completed web sch completed_batches batch_size all_ids is =
     {batch_num_at batch_size j | j.
        j \<in> set is \<and> batch_num_at batch_size j \<notin> completed_batches
        \<and> fetched web (sch (batch_num_at batch_size j) (batch_ids_at batch_size all_ids j)) \<noteq> []}"

text \<open>
  What one listing page does to the paginator: it ends the sequence (no
  \<^verbatim>\<open>next 500\<close> anchor), it makes the loop raise (the request fails, or the anchor
  has no \<^verbatim>\<open>href\<close>), or it names the next URL.
\<close>

datatype link = NoLink | Broken exn | Link string

definition next_of :: "web \<Rightarrow> string \<Rightarrow> link" where
  "next_of web url =
     (case web url of
        Inl e \<Rightarrow> Broken e
      | Inr page \<Rightarrow>
          (case find is_next_link (a_tags page) of
             None \<Rightarrow> NoLink
           | Some a \<Rightarrow> (case snd a of None \<Rightarrow> Broken KeyError | Some href \<Rightarrow> Link (BASE_URL @ href))))"

text \<open>
  Following the links from a URL through at most \<open>n\<close> pages: the URLs visited, in
  order, and the exception if the last of them raised; \<open>None\<close> when \<open>n\<close> pages do
  not reach an end.
\<close>

fun chain :: "web \<Rightarrow> nat \<Rightarrow> string \<Rightarrow> (string list \<times> exn option) option" where
  "chain web 0 url = None"
| "chain web (Suc n) url =
     (case next_of web url of
        NoLink \<Rightarrow> Some ([url], None)
      | Broken e \<Rightarrow> Some ([url], Some e)
      | Link u \<Rightarrow> (case chain web n u of None \<Rightarrow> None | Some (us, r) \<Rightarrow> Some (url # us, r)))"

text \<open>A reader that takes every field of a file as text.\<close>

definition plain_reader :: "reader" where
  "plain_reader content =
     (case content of
        [] \<Rightarrow> Inl EmptyDataError
      | header # rows \<Rightarrow> Inr (map (\<lambda>row. zip header (map Str row)) rows))"

section \<open>A small web for concrete runs\<close>

text \<open>
  Two listing pages and three detail pages. The first listing page links to the
  second and repeats an identifier; one detail page has the three fields, one has
  no table, and the request for the third fails.
\<close>

definition demo_web :: "web" where
  "demo_web url =
     (if url = LISTING_URL then
        Inr \<lparr>a_tags = [(Some ''previous 500'', Some ''/p0''), (None, Some ''/x''), (Some ''Next 500'', Some ''/p2'')],
             li_anchor_texts = ['' FL0000000001 '', ''Main page'', ''FL0000000002'', ''FL0000000001'', ''fl0000000004''],
             table_rows = []\<rparr>
      else if url = BASE_URL @ ''/p2'' then
        Inr \<lparr>a_tags = [(Some ''previous 500'', Some ''/p1'')],
             li_anchor_texts = [''FL0000000003'', ''FL00003''],
             table_rows = []\<rparr>
      else if url = entry_url ''FL0000000001'' then
        Inr \<lparr>a_tags = [], li_anchor_texts = [],
             table_rows = [[''Name''], [''SMILES'', ''C1=CC=CC=C1''], [''Systematic Name'', ''benzene''],
                           [''Average Mass'', ''268.2 g/mol''], [''Formula'', ''C6H6'']]\<rparr>
      else if url = entry_url ''FL0000000002'' then
        Inr \<lparr>a_tags = [], li_anchor_texts = [], table_rows = []\<rparr>
      else Inl RequestException)"

definition demo_world :: "world" where
  "demo_world = \<lparr>checkpoints = [], skipped_entries = [], io_log = []\<rparr>"

text \<open>A web whose every page links on with a \<^verbatim>\<open>next 500\<close> anchor, and a web that is
  down.\<close>

definition loop_web :: "web" where
  "loop_web url =
     Inr \<lparr>a_tags = [(Some ''next 500'', Some ''/again'')], li_anchor_texts = [], table_rows = []\<rparr>"

definition web_down :: "web" where
  "web_down url = Inl RequestException"


definition empty_web :: "web" where
  "empty_web url =
     (if url = LISTING_URL then Inr \<lparr>a_tags = [], li_anchor_texts = [], table_rows = []\<rparr>
      else Inl RequestException)"

section \<open>Properties\<close>

lemma collect_ids_filter:
  "collect_ids ids texts = ids @ filter valid_id (map strip texts)"
  by (induction texts arbitrary: ids) (simp_all add: Let_def)

subsection \<open>Evaluation of the built-ins\<close>

lemmas str_eval = strip_def isspace_def num_strip_def num_space_def lower_def lower_char_def upper_chars_def lower_chars_def
  startswith_def split_ws_def take_sign_def digitpart_def digitpart_val_def digits_val_def
  digit_val_def is_digit_def digit_char_def str_int_def str_nat.simps

lemmas float_eval = py_float_def parse_mantissa_def parse_exponent_def is_exp_mark_def
  to_double_def floor_log2_def round_half_even_def bit_length.simps int_of_float_def

lemmas url_eval = entry_url_def BASE_URL_def LISTING_URL_def

lemma py_float_268: "py_float ''268.2'' = Inr (Fin False 4718224297112371 (- 44))"
  by (simp add: str_eval float_eval Let_def)

lemma parse_avg_mass_268: "parse_avg_mass ''268.2 g/mol'' = Inr ''268''"
  by (simp add: parse_avg_mass_def py_float_268 int_of_float_def str_eval)

lemma parse_avg_mass_na: "parse_avg_mass ''n/a'' = Inl ValueError"
  by (simp add: parse_avg_mass_def str_eval float_eval Let_def)

subsection \<open>The row scan\<close>

lemma scan_rows_snoc: "scan_rows (rows @ [cells]) = scan_row (scan_rows rows) cells"
  by (simp add: scan_rows_def)

lemma scan_rows_Nil: "scan_rows [] = \<lparr>smiles = [], systematic_name = [], avg_mass = []\<rparr>"
  by (simp add: scan_rows_def)

lemma smiles_scan_row:
  "smiles (scan_row fs cells) = (if sets_smiles cells then cells ! 1 else smiles fs)"
  by (simp add: scan_row_def sets_smiles_def Let_def split: sum.splits)

lemma name_scan_row:
  "systematic_name (scan_row fs cells) =
     (if sets_systematic_name cells then cells ! 1 else systematic_name fs)"
  by (simp add: scan_row_def sets_systematic_name_def Let_def split: sum.splits)

lemma mass_scan_row:
  "avg_mass (scan_row fs cells) =
     (if sets_avg_mass cells then parsed_mass (cells ! 1) else avg_mass fs)"
  by (auto simp add: scan_row_def sets_avg_mass_def reads_avg_mass_def parsed_mass_def Let_def
      split: sum.splits)

lemma demo_fields:
  "scan_rows [[''Name''], [''SMILES'', ''C1=CC=CC=C1''], [''Systematic Name'', ''benzene''],
              [''Average Mass'', ''268.2 g/mol''], [''Formula'', ''C6H6'']]
     = \<lparr>smiles = ''C1=CC=CC=C1'', systematic_name = ''benzene'', avg_mass = ''268''\<rparr>"
  by (simp add: scan_rows_def scan_row_def parse_avg_mass_268 Let_def lower_def lower_char_def
      upper_chars_def lower_chars_def startswith_def)

subsection \<open>The Entry Fetcher\<close>

lemma fetch_entry_raise:
  "web (entry_url fid) = Inl e \<Longrightarrow>
     fetch_entry web fid w = (Inr None, skip fid (requested (entry_url fid) w))"
  by (simp add: fetch_entry_def fetch_entry_try_def)

lemma fetch_entry_page:
  "web (entry_url fid) = Inr page \<Longrightarrow>
     fetch_entry web fid w =
       (if smiles (scan_rows (table_rows page)) \<noteq> [] \<or> systematic_name (scan_rows (table_rows page)) \<noteq> []
        then (Inr (Some \<lparr>Flavonoid_ID = fid,
                          Systematic_Name = systematic_name (scan_rows (table_rows page)),
                          SMILES = smiles (scan_rows (table_rows page)),
                          Average_Mass = avg_mass (scan_rows (table_rows page))\<rparr>),
              requested (entry_url fid) w)
        else (Inr None, skip fid (requested (entry_url fid) w)))"
  by (simp add: fetch_entry_def fetch_entry_try_def Let_def)

lemma fetch_entry_entry_of:
  "fetch_entry web fid w =
     (Inr (entry_of web fid),
      if entry_of web fid = None then skip fid (requested (entry_url fid) w)
      else requested (entry_url fid) w)"
  by (cases "web (entry_url fid)") (simp_all add: entry_of_def fetch_entry_raise fetch_entry_page)

lemma entry_of_id: "entry_of web fid = Some r \<Longrightarrow> Flavonoid_ID r = fid"
  by (cases "web (entry_url fid)")
     (auto simp: entry_of_def fetch_entry_raise fetch_entry_page split: if_splits)

lemma demo_web_1:
  "demo_web (entry_url ''FL0000000001'') =
     Inr \<lparr>a_tags = [], li_anchor_texts = [],
          table_rows = [[''Name''], [''SMILES'', ''C1=CC=CC=C1''], [''Systematic Name'', ''benzene''],
                        [''Average Mass'', ''268.2 g/mol''], [''Formula'', ''C6H6'']]\<rparr>"
  by (simp add: demo_web_def url_eval)

lemma demo_web_2:
  "demo_web (entry_url ''FL0000000002'') = Inr \<lparr>a_tags = [], li_anchor_texts = [], table_rows = []\<rparr>"
  by (simp add: demo_web_def url_eval)

lemma demo_web_3: "demo_web (entry_url ''FL0000000003'') = Inl RequestException"
  by (simp add: demo_web_def url_eval)

text \<open>
  C4. \<^verbatim>\<open>fetch_entry\<close> never raises. When the page is fetched it returns a record
  exactly when the scanned SMILES or systematic name is non-empty, and the record
  holds the scanned fields; in every other case, a failed request included, it
  returns \<^verbatim>\<open>None\<close> and appends the identifier to the skipped list.
\<close>

theorem fetch_entry_record_iff_field:
  "(\<exists>r w'. fetch_entry web fid w = (Inr r, w'))
   \<and> (\<forall>page. web (entry_url fid) = Inr page \<longrightarrow>
        fetch_entry web fid w =
          (if smiles (scan_rows (table_rows page)) \<noteq> [] \<or> systematic_name (scan_rows (table_rows page)) \<noteq> []
           then (Inr (Some \<lparr>Flavonoid_ID = fid,
                             Systematic_Name = systematic_name (scan_rows (table_rows page)),
                             SMILES = smiles (scan_rows (table_rows page)),
                             Average_Mass = avg_mass (scan_rows (table_rows page))\<rparr>),
                 requested (entry_url fid) w)
           else (Inr None, skip fid (requested (entry_url fid) w))))
   \<and> (\<forall>e. web (entry_url fid) = Inl e \<longrightarrow>
        fetch_entry web fid w = (Inr None, skip fid (requested (entry_url fid) w)))
   \<and> ((\<exists>r. fst (fetch_entry web fid w) = Inr (Some r)) \<longleftrightarrow>
        (\<exists>page. web (entry_url fid) = Inr page
           \<and> (smiles (scan_rows (table_rows page)) \<noteq> [] \<or> systematic_name (scan_rows (table_rows page)) \<noteq> [])))
   \<and> (fst (fetch_entry web fid w) = Inr None \<longrightarrow>
        skipped_entries (snd (fetch_entry web fid w)) = skipped_entries w @ [fid])"
proof (cases "web (entry_url fid)")
  case (Inl e)
  then show ?thesis
    by (simp add: fetch_entry_raise skip_def requested_def)
next
  case (Inr page)
  then show ?thesis
    by (simp add: fetch_entry_page skip_def requested_def)
qed

theorem fetch_entry_record_iff_field_witness:
  "fetch_entry demo_web ''FL0000000001'' demo_world =
     (Inr (Some \<lparr>Flavonoid_ID = ''FL0000000001'', Systematic_Name = ''benzene'',
                  SMILES = ''C1=CC=CC=C1'', Average_Mass = ''268''\<rparr>),
      \<lparr>checkpoints = [], skipped_entries = [], io_log = [Get (entry_url ''FL0000000001'')]\<rparr>)
   \<and> fetch_entry demo_web ''FL0000000002'' demo_world =
     (Inr None, \<lparr>checkpoints = [], skipped_entries = [''FL0000000002''],
                 io_log = [Get (entry_url ''FL0000000002'')]\<rparr>)
   \<and> fetch_entry demo_web ''FL0000000003'' demo_world =
     (Inr None, \<lparr>checkpoints = [], skipped_entries = [''FL0000000003''],
                 io_log = [Get (entry_url ''FL0000000003'')]\<rparr>)"
  using fetch_entry_record_iff_field [of demo_web "''FL0000000001''" demo_world]
        fetch_entry_record_iff_field [of demo_web "''FL0000000002''" demo_world]
        fetch_entry_record_iff_field [of demo_web "''FL0000000003''" demo_world]
  by (simp add: demo_web_1 demo_web_2 demo_web_3 demo_fields scan_rows_Nil
      demo_world_def skip_def requested_def)

text \<open>
  C10. Every call of \<^verbatim>\<open>fetch_entry\<close> ends in exactly one of two ways: it returns a
  record whose identifier is the input and leaves the skipped list as it was, or it
  returns \<^verbatim>\<open>None\<close> and has appended the input once to the skipped list. So the pool
  of a batch accounts for every identifier occurrence once: the identifiers of the
  collected records together with the newly skipped ones are the identifiers given.
\<close>

lemma run_pool_eq:
  "run_pool web fids acc w =
     (Inr (acc @ List.map_filter (entry_of web) fids),
      w\<lparr>skipped_entries := skipped_entries w @ filter (\<lambda>fid. entry_of web fid = None) fids,
        io_log := io_log w @ map (\<lambda>fid. Get (entry_url fid)) fids\<rparr>)"
proof (induction fids arbitrary: acc w)
  case Nil
  show ?case by (simp add: List.map_filter_simps)
next
  case (Cons fid fids)
  show ?case
    by (cases "entry_of web fid")
       (simp_all add: fetch_entry_entry_of Cons.IH List.map_filter_simps skip_def requested_def)
qed

lemma pool_accounts:
  "mset (map Flavonoid_ID (List.map_filter (entry_of web) fids))
     + mset (filter (\<lambda>fid. entry_of web fid = None) fids) = mset fids"
proof (induction fids)
  case Nil
  show ?case by (simp add: List.map_filter_simps)
next
  case (Cons fid fids)
  then show ?case
    by (cases "entry_of web fid") (auto simp: List.map_filter_simps dest: entry_of_id)
qed

theorem fetch_entry_one_outcome:
  "((\<exists>r. fetch_entry web fid w = (Inr (Some r), requested (entry_url fid) w) \<and> Flavonoid_ID r = fid)
      \<or> fetch_entry web fid w = (Inr None, skip fid (requested (entry_url fid) w)))
   \<and> \<not> ((\<exists>r. fetch_entry web fid w = (Inr (Some r), requested (entry_url fid) w) \<and> Flavonoid_ID r = fid)
          \<and> fetch_entry web fid w = (Inr None, skip fid (requested (entry_url fid) w)))
   \<and> skipped_entries (requested (entry_url fid) w) = skipped_entries w
   \<and> skipped_entries (skip fid (requested (entry_url fid) w)) = skipped_entries w @ [fid]
   \<and> (\<exists>batch_data sk w'.
         run_pool web fids [] w = (Inr batch_data, w')
         \<and> skipped_entries w' = skipped_entries w @ sk
         \<and> mset (map Flavonoid_ID batch_data) + mset sk = mset fids)"
proof -
  have one: "(\<exists>r. fetch_entry web fid w = (Inr (Some r), requested (entry_url fid) w) \<and> Flavonoid_ID r = fid)
      \<or> fetch_entry web fid w = (Inr None, skip fid (requested (entry_url fid) w))"
    by (cases "entry_of web fid") (auto simp: fetch_entry_entry_of dest: entry_of_id)
  have pool: "\<exists>batch_data sk w'.
         run_pool web fids [] w = (Inr batch_data, w')
         \<and> skipped_entries w' = skipped_entries w @ sk
         \<and> mset (map Flavonoid_ID batch_data) + mset sk = mset fids"
    using pool_accounts [of web fids] by (simp add: run_pool_eq)
  show ?thesis
    using one pool by (auto simp: skip_def requested_def)
qed

theorem fetch_entry_one_outcome_witness:
  "fetch_entry demo_web ''FL0000000001'' demo_world \<noteq>
     (Inr None, skip ''FL0000000001'' (requested (entry_url ''FL0000000001'') demo_world))
   \<and> (\<exists>r. fetch_entry demo_web ''FL0000000001'' demo_world =
            (Inr (Some r), requested (entry_url ''FL0000000001'') demo_world)
          \<and> Flavonoid_ID r = ''FL0000000001'')
   \<and> (\<exists>batch_data sk w'.
         run_pool demo_web [''FL0000000001'', ''FL0000000002'', ''FL0000000001''] [] demo_world = (Inr batch_data, w')
         \<and> skipped_entries w' = skipped_entries demo_world @ sk
         \<and> mset (map Flavonoid_ID batch_data) + mset sk
             = mset [''FL0000000001'', ''FL0000000002'', ''FL0000000001''])"
proof -
  have some: "fetch_entry demo_web ''FL0000000001'' demo_world \<noteq>
     (Inr None, skip ''FL0000000001'' (requested (entry_url ''FL0000000001'') demo_world))"
    by (simp add: fetch_entry_page [of demo_web "''FL0000000001''", OF demo_web_1] demo_fields)
  show ?thesis
    using some
      fetch_entry_one_outcome [of demo_web "''FL0000000001''" demo_world
        "[''FL0000000001'', ''FL0000000002'', ''FL0000000001'']"]
    by blast
qed

subsection \<open>Field extraction\<close>

lemma smiles_last:
  "smiles (scan_rows rows) =
     (if filter sets_smiles rows = [] then [] else last (filter sets_smiles rows) ! 1)"
  by (induction rows rule: rev_induct) (simp_all add: scan_rows_Nil scan_rows_snoc smiles_scan_row)

lemma name_last:
  "systematic_name (scan_rows rows) =
     (if filter sets_systematic_name rows = [] then []
      else last (filter sets_systematic_name rows) ! 1)"
  by (induction rows rule: rev_induct) (simp_all add: scan_rows_Nil scan_rows_snoc name_scan_row)

lemma mass_last:
  "avg_mass (scan_rows rows) =
     (if filter sets_avg_mass rows = [] then []
      else parsed_mass (last (filter sets_avg_mass rows) ! 1))"
  by (induction rows rule: rev_induct) (simp_all add: scan_rows_Nil scan_rows_snoc mass_scan_row)

lemmas scan_eval = scan_rows_def scan_row_def Let_def lower_def lower_char_def upper_chars_def
  lower_chars_def startswith_def

text \<open>
  C5, as the code has it. A row with at least two cells is assigned to the field of
  the first of the keywords \<^verbatim>\<open>smiles\<close>, \<^verbatim>\<open>systematic name\<close>, \<^verbatim>\<open>average mass\<close> that its
  lowercased label contains. Among the rows assigned to SMILES the last one gives
  the SMILES field, and likewise for the systematic name; the average mass comes
  from the last row assigned to it whose value can be parsed. No row stops the scan.
\<close>

theorem last_assigning_row_wins:
  "smiles (scan_rows rows) =
     (if filter sets_smiles rows = [] then [] else last (filter sets_smiles rows) ! 1)
   \<and> systematic_name (scan_rows rows) =
     (if filter sets_systematic_name rows = [] then []
      else last (filter sets_systematic_name rows) ! 1)
   \<and> avg_mass (scan_rows rows) =
     (if filter sets_avg_mass rows = [] then []
      else parsed_mass (last (filter sets_avg_mass rows) ! 1))"
  by (simp only: smiles_last name_last mass_last simp_thms)

theorem last_assigning_row_wins_witness:
  "smiles (scan_rows [[''SMILES'', ''C1=CC=CC=C1''], [''Formula'', ''C6H6''], [''SMILES'', ''CCO'']]) = ''CCO''"
proof -
  have "filter sets_smiles [[''SMILES'', ''C1=CC=CC=C1''], [''Formula'', ''C6H6''], [''SMILES'', ''CCO'']]
          = [[''SMILES'', ''C1=CC=CC=C1''], [''SMILES'', ''CCO'']]"
    by (simp add: sets_smiles_def lower_def lower_char_def upper_chars_def lower_chars_def startswith_def)
  then show ?thesis
    using last_assigning_row_wins
      [of "[[''SMILES'', ''C1=CC=CC=C1''], [''Formula'', ''C6H6''], [''SMILES'', ''CCO'']]"]
    by simp
qed

text \<open>
  C5 as stated fails. Two rows whose labels both contain \<^verbatim>\<open>systematic name\<close>: the
  later label also contains \<^verbatim>\<open>smiles\<close>, and the name stays that of the earlier row.
  Two rows labelled \<^verbatim>\<open>Average Mass\<close>: the later value cannot be parsed, and the mass
  stays that of the earlier row.
\<close>

theorem last_matching_row_wins_counterexample:
  "contains (lower ''Systematic name'') ''systematic name''
   \<and> contains (lower ''Systematic name (SMILES)'') ''systematic name''
   \<and> systematic_name (scan_rows [[''Systematic name'', ''apigenin''],
                                  [''Systematic name (SMILES)'', ''luteolin'']]) = ''apigenin''
   \<and> contains (lower ''Average Mass'') ''average mass''
   \<and> avg_mass (scan_rows [[''Average Mass'', ''268.2 g/mol''], [''Average Mass'', ''n/a'']]) = ''268''"
  by (simp add: scan_eval parse_avg_mass_268 parse_avg_mass_na)

text \<open>
  C6, as the code has it. For a row with at least two cells whose lowercased label
  contains \<^verbatim>\<open>average mass\<close> and neither \<^verbatim>\<open>smiles\<close> nor \<^verbatim>\<open>systematic name\<close>: the first
  whitespace-delimited token of the value is read as a float, truncated towards
  zero and stored as a decimal string, so \<^verbatim>\<open>268.2 g/mol\<close> gives \<^verbatim>\<open>268\<close>. When there is no
  token, the token is no float literal, or the float is infinite or not a number,
  the three fields stay as they were; nothing is raised.
\<close>

theorem avg_mass_row_parsed:
  "(reads_avg_mass cells \<longrightarrow>
      scan_rows (rows @ [cells]) =
        (case parse_avg_mass (cells ! 1) of
           Inl e \<Rightarrow> scan_rows rows
         | Inr m \<Rightarrow> (scan_rows rows)\<lparr>avg_mass := m\<rparr>))
   \<and> (parse_avg_mass v = Inr m \<longleftrightarrow>
        (\<exists>tok rest x n. split_ws v = tok # rest \<and> py_float tok = Inr x
                         \<and> int_of_float x = Inr n \<and> m = str_int n))
   \<and> (int_of_float (Fin neg k p) = Inr n \<longrightarrow>
        (if neg then n \<le> 0 else 0 \<le> n)
        \<and> (if 0 \<le> p then nat \<bar>n\<bar> = k * 2 ^ nat p
           else nat \<bar>n\<bar> * 2 ^ nat (- p) \<le> k \<and> k < (nat \<bar>n\<bar> + 1) * 2 ^ nat (- p)))
   \<and> scan_rows [[''Average Mass'', ''268.2 g/mol'']]
        = \<lparr>smiles = [], systematic_name = [], avg_mass = ''268''\<rparr>"
proof -
  have row: "reads_avg_mass cells \<longrightarrow>
      scan_rows (rows @ [cells]) =
        (case parse_avg_mass (cells ! 1) of
           Inl e \<Rightarrow> scan_rows rows
         | Inr m \<Rightarrow> (scan_rows rows)\<lparr>avg_mass := m\<rparr>)"
    by (simp add: scan_rows_snoc scan_row_def reads_avg_mass_def Let_def)
  have parse: "parse_avg_mass v = Inr m \<longleftrightarrow>
        (\<exists>tok rest x n. split_ws v = tok # rest \<and> py_float tok = Inr x
                         \<and> int_of_float x = Inr n \<and> m = str_int n)"
    by (auto simp: parse_avg_mass_def split: list.splits sum.splits)
  have trunc: "int_of_float (Fin neg k p) = Inr n \<longrightarrow>
        (if neg then n \<le> 0 else 0 \<le> n)
        \<and> (if 0 \<le> p then nat \<bar>n\<bar> = k * 2 ^ nat p
           else nat \<bar>n\<bar> * 2 ^ nat (- p) \<le> k \<and> k < (nat \<bar>n\<bar> + 1) * 2 ^ nat (- p))"
  proof (cases "0 \<le> p")
    case True
    have "int k * 2 ^ nat p = int (k * 2 ^ nat p)"
      by simp
    then show ?thesis
      using True by (auto simp: int_of_float_def simp del: of_nat_mult of_nat_power)
  next
    case False
    have "k div 2 ^ nat (- p) * 2 ^ nat (- p) \<le> k"
      by simp
    moreover have "k < (k div 2 ^ nat (- p) + 1) * 2 ^ nat (- p)"
      using dividend_less_div_times [of "2 ^ nat (- p)" k] by (simp add: algebra_simps)
    ultimately show ?thesis
      using False by (auto simp: int_of_float_def)
  qed
  have ex: "scan_rows [[''Average Mass'', ''268.2 g/mol'']]
        = \<lparr>smiles = [], systematic_name = [], avg_mass = ''268''\<rparr>"
    by (simp add: scan_eval parse_avg_mass_268)
  show ?thesis
    using row parse trunc ex by blast
qed

theorem avg_mass_row_parsed_witness:
  "reads_avg_mass [''Average Mass'', ''268.2 g/mol'']
   \<and> scan_rows ([[''SMILES'', ''CCO'']] @ [[''Average Mass'', ''268.2 g/mol'']])
       = \<lparr>smiles = ''CCO'', systematic_name = [], avg_mass = ''268''\<rparr>
   \<and> int_of_float (Fin False 4718224297112371 (- 44)) = Inr 268"
proof -
  have r: "reads_avg_mass [''Average Mass'', ''268.2 g/mol'']"
    by (simp add: reads_avg_mass_def lower_def lower_char_def upper_chars_def lower_chars_def
        startswith_def)
  have s: "scan_rows [[''SMILES'', ''CCO'']] = \<lparr>smiles = ''CCO'', systematic_name = [], avg_mass = []\<rparr>"
    by (simp add: scan_eval)
  have i: "int_of_float (Fin False 4718224297112371 (- 44)) = Inr 268"
    by (simp add: int_of_float_def)
  show ?thesis
    using r i avg_mass_row_parsed
      [of "[''Average Mass'', ''268.2 g/mol'']" "[[''SMILES'', ''CCO'']]" "''268.2 g/mol''" "''268''"
          False 4718224297112371 "- 44" 268]
    by (simp add: parse_avg_mass_268 s)
qed

text \<open>
  C6 as stated fails. A row whose label contains \<^verbatim>\<open>average mass\<close> and also
  \<^verbatim>\<open>smiles\<close> is taken as SMILES and the mass is not read. A row labelled
  \<^verbatim>\<open>Average Mass\<close> whose value cannot be parsed leaves the mass of an earlier row in
  place, not empty.
\<close>

theorem avg_mass_row_counterexample:
  "contains (lower ''Average mass (from SMILES)'') ''average mass''
   \<and> scan_rows [[''Average mass (from SMILES)'', ''268.2 g/mol'']]
       = \<lparr>smiles = ''268.2 g/mol'', systematic_name = [], avg_mass = []\<rparr>
   \<and> parse_avg_mass ''n/a'' = Inl ValueError
   \<and> avg_mass (scan_rows [[''Average Mass'', ''268.2 g/mol''], [''Average Mass'', ''n/a'']]) \<noteq> []"
  by (simp add: scan_eval parse_avg_mass_268 parse_avg_mass_na)

subsection \<open>Listing Paginator\<close>

lemma listing_loop_Some:
  "listing_loop web urls w = Some y \<Longrightarrow>
     checkpoints (snd y) = checkpoints w \<and> skipped_entries (snd y) = skipped_entries w
       \<and> (\<exists>evs. io_log (snd y) = io_log w @ evs \<and> (\<forall>e \<in> set evs. \<exists>u. e = Get u))
       \<and> (\<forall>urls'. fst y = Inr urls' \<longrightarrow> (\<exists>more. urls' = urls @ more))"
proof (induction rule: listing_loop.raw_induct [rotated, consumes 1, case_names step])
  case (step listing_loop web urls w y)
  show ?case
  proof (cases "web (last urls)")
    case (Inl e)
    with step(2) show ?thesis by (auto simp: requested_def)
  next
    case (Inr page)
    show ?thesis
    proof (cases "find is_next_link (a_tags page)")
      case None
      with step(2) Inr show ?thesis by (auto simp: requested_def)
    next
      case (Some a)
      show ?thesis
      proof (cases "snd a")
        case None
        with step(2) Inr Some show ?thesis by (auto simp: requested_def)
      next
        case (Some href)
        with step(2) Inr \<open>find is_next_link (a_tags page) = Some a\<close>
        have rec: "listing_loop web (urls @ [BASE_URL @ href]) (requested (last urls) w) = Some y"
          by simp
        from step(1) [OF rec] show ?thesis
          by (auto simp: requested_def)
      qed
    qed
  qed
qed

lemma loop_web_never:
  "listing_loop web urls w = Some y \<Longrightarrow> web = loop_web \<Longrightarrow> False"
proof (induction rule: listing_loop.raw_induct [rotated, consumes 1, case_names step])
  case (step listing_loop web urls w y)
  have "find is_next_link
          (a_tags \<lparr>a_tags = [(Some ''next 500'', Some ''/again'')], li_anchor_texts = [], table_rows = []\<rparr>)
      = Some (Some ''next 500'', Some ''/again'')"
    by (simp add: is_next_link_def lower_def lower_char_def upper_chars_def lower_chars_def
        startswith_def)
  with step(2)
  have rec: "listing_loop web (urls @ [BASE_URL @ ''/again'']) (requested (last urls) w) = Some y"
    by (simp add: step(3) loop_web_def)
  show ?case
    using step(1) [OF rec step(3)] .
qed

lemma demo_listing:
  "get_listing_pages demo_web demo_world =
     Some (Inr [LISTING_URL, BASE_URL @ ''/p2''],
           \<lparr>checkpoints = [], skipped_entries = [],
             io_log = [Get LISTING_URL, Get (BASE_URL @ ''/p2'')]\<rparr>)"
  by (simp add: get_listing_pages_def listing_loop.simps demo_web_def demo_world_def requested_def
      is_next_link_def lower_def lower_char_def upper_chars_def lower_chars_def startswith_def
      url_eval)

lemma next_of_NoLink:
  "next_of web url = NoLink \<longleftrightarrow> (\<exists>page. web url = Inr page \<and> find is_next_link (a_tags page) = None)"
  by (auto simp: next_of_def split: sum.splits option.splits)

lemma next_of_Link:
  "next_of web url = Link u \<longleftrightarrow>
     (\<exists>page a href. web url = Inr page \<and> find is_next_link (a_tags page) = Some a
                     \<and> snd a = Some href \<and> u = BASE_URL @ href)"
  by (auto simp: next_of_def split: sum.splits option.splits)

lemma listing_loop_step:
  "listing_loop web urls w =
     (case next_of web (last urls) of
        NoLink \<Rightarrow> Some (Inr urls, requested (last urls) w)
      | Broken e \<Rightarrow> Some (Inl e, requested (last urls) w)
      | Link u \<Rightarrow> listing_loop web (urls @ [u]) (requested (last urls) w))"
  by (subst listing_loop.simps) (simp add: next_of_def split: sum.splits option.splits)

lemma chain_returns:
  "chain web n (last urls) = Some (us, r) \<Longrightarrow> urls \<noteq> [] \<Longrightarrow>
     listing_loop web urls w =
       Some (case r of None \<Rightarrow> Inr (butlast urls @ us) | Some e \<Rightarrow> Inl e,
             w\<lparr>io_log := io_log w @ map Get us\<rparr>)"
proof (induction n arbitrary: urls w us)
  case 0
  then show ?case by simp
next
  case (Suc n)
  show ?case
  proof (cases "next_of web (last urls)")
    case NoLink
    with Suc.prems show ?thesis
      by (subst listing_loop_step) (auto simp: requested_def)
  next
    case (Broken e)
    with Suc.prems show ?thesis
      by (subst listing_loop_step) (auto simp: requested_def)
  next
    case (Link u)
    with Suc.prems(1) obtain us' where
      c: "chain web n u = Some (us', r)" and us: "us = last urls # us'"
      by (auto split: option.splits)
    from c have c': "chain web n (last (urls @ [u])) = Some (us', r)"
      by simp
    have "listing_loop web urls w = listing_loop web (urls @ [u]) (requested (last urls) w)"
      by (subst listing_loop_step) (simp add: Link)
    also have "\<dots> = Some (case r of None \<Rightarrow> Inr (butlast (urls @ [u]) @ us') | Some e \<Rightarrow> Inl e,
             (requested (last urls) w)\<lparr>io_log := io_log (requested (last urls) w) @ map Get us'\<rparr>)"
      by (rule Suc.IH [OF c']) simp
    also have "\<dots> = Some (case r of None \<Rightarrow> Inr (butlast urls @ us) | Some e \<Rightarrow> Inl e,
             w\<lparr>io_log := io_log w @ map Get us\<rparr>)"
      using Suc.prems(2) by (simp add: us requested_def split: option.splits)
    finally show ?thesis .
  qed
qed

lemma returns_chain:
  "listing_loop web urls w = Some y \<Longrightarrow> \<exists>n us r. chain web n (last urls) = Some (us, r)"
proof (induction rule: listing_loop.raw_induct [rotated, consumes 1, case_names step])
  case (step listing_loop web urls w y)
  show ?case
  proof (cases "next_of web (last urls)")
    case NoLink
    then have "chain web (Suc 0) (last urls) = Some ([last urls], None)"
      by simp
    then show ?thesis by blast
  next
    case (Broken e)
    then have "chain web (Suc 0) (last urls) = Some ([last urls], Some e)"
      by simp
    then show ?thesis by blast
  next
    case (Link u)
    then obtain page a href where
      p: "web (last urls) = Inr page" "find is_next_link (a_tags page) = Some a"
         "snd a = Some href" "u = BASE_URL @ href"
      by (auto simp: next_of_Link)
    with step(2) have "listing_loop web (urls @ [u]) (requested (last urls) w) = Some y"
      by simp
    from step(1) [OF this] obtain n us r where "chain web n u = Some (us, r)"
      by auto
    with Link have "chain web (Suc n) (last urls) = Some (last urls # us, r)"
      by simp
    then show ?thesis by blast
  qed
qed

lemma chain_head: "chain web n url = Some (us, r) \<Longrightarrow> us \<noteq> [] \<and> hd us = url"
  by (cases n) (auto split: link.splits option.splits)

text \<open>
  C8, as the code has it. The Listing Paginator returns exactly when following the
  \<^verbatim>\<open>next 500\<close> links from the seed URL comes to an end after finitely many pages.
  When the end is a page without such a link, the result is the sequence of the
  URLs visited: finite, non-empty, the seed URL first (the seed alone when the seed
  page has no link); every page was requested once, in order, and nothing else was
  done. When the end is a request that fails (or an anchor without \<^verbatim>\<open>href\<close>), the
  exception leaves the paginator and ends the run with nothing done but the page
  requests. When the links never end, the paginator never returns.
\<close>

theorem listing_pages_follow_links:
  "(\<forall>urls. chain web n LISTING_URL = Some (urls, None) \<longrightarrow>
       get_listing_pages web w = Some (Inr urls, w\<lparr>io_log := io_log w @ map Get urls\<rparr>)
       \<and> urls \<noteq> [] \<and> hd urls = LISTING_URL)
   \<and> (\<forall>urls e. chain web n LISTING_URL = Some (urls, Some e) \<longrightarrow>
       get_listing_pages web w = Some (Inl e, w\<lparr>io_log := io_log w @ map Get urls\<rparr>)
       \<and> main web sch rd w = Some (Inl e, w\<lparr>io_log := io_log w @ map Get urls\<rparr>))
   \<and> (get_listing_pages web w = None \<longleftrightarrow> (\<forall>k. chain web k LISTING_URL = None))
   \<and> (\<forall>urls w'. get_listing_pages web w = Some (Inr urls, w') \<longrightarrow>
         urls \<noteq> [] \<and> hd urls = LISTING_URL
         \<and> checkpoints w' = checkpoints w \<and> skipped_entries w' = skipped_entries w)
   \<and> (\<forall>e w'. get_listing_pages web w = Some (Inl e, w') \<longrightarrow> main web sch rd w = Some (Inl e, w'))
   \<and> (\<forall>e. web url = Inl e \<longrightarrow> chain web (Suc k) url = Some ([url], Some e))
   \<and> (\<forall>page. web url = Inr page \<and> find is_next_link (a_tags page) = None \<longrightarrow>
         chain web (Suc k) url = Some ([url], None))
   \<and> (\<forall>page a href.
         web url = Inr page \<and> find is_next_link (a_tags page) = Some a \<and> snd a = Some href \<longrightarrow>
         chain web (Suc k) url =
           (case chain web k (BASE_URL @ href) of
              None \<Rightarrow> None
            | Some (us, r) \<Rightarrow> Some (url # us, r)))"
proof -
  have ret: "get_listing_pages web w =
               Some (case r of None \<Rightarrow> Inr urls | Some e \<Rightarrow> Inl e, w\<lparr>io_log := io_log w @ map Get urls\<rparr>)"
    if "chain web n LISTING_URL = Some (urls, r)" for urls r
    using chain_returns [of web n "[LISTING_URL]" urls r w] that
    by (cases r) (simp_all add: get_listing_pages_def)
  have a: "get_listing_pages web w = Some (Inr urls, w\<lparr>io_log := io_log w @ map Get urls\<rparr>)
       \<and> urls \<noteq> [] \<and> hd urls = LISTING_URL"
    if "chain web n LISTING_URL = Some (urls, None)" for urls
    using ret [OF that] chain_head [OF that] by simp
  have b: "get_listing_pages web w = Some (Inl e, w\<lparr>io_log := io_log w @ map Get urls\<rparr>)
       \<and> main web sch rd w = Some (Inl e, w\<lparr>io_log := io_log w @ map Get urls\<rparr>)"
    if "chain web n LISTING_URL = Some (urls, Some e)" for urls e
    using ret [OF that] by (simp add: main_def)
  have c: "get_listing_pages web w = None \<longleftrightarrow> (\<forall>k. chain web k LISTING_URL = None)"
  proof
    assume none: "get_listing_pages web w = None"
    show "\<forall>k. chain web k LISTING_URL = None"
    proof
      fix k
      show "chain web k LISTING_URL = None"
      proof (cases "chain web k LISTING_URL")
        case None
        then show ?thesis .
      next
        case (Some p)
        obtain us r where "p = (us, r)" by (cases p)
        with Some chain_returns [of web k "[LISTING_URL]" us r w] none show ?thesis
          by (simp add: get_listing_pages_def)
      qed
    qed
  next
    assume all: "\<forall>k. chain web k LISTING_URL = None"
    show "get_listing_pages web w = None"
    proof (cases "get_listing_pages web w")
      case None
      then show ?thesis .
    next
      case (Some y)
      then have "listing_loop web [LISTING_URL] w = Some y"
        by (simp add: get_listing_pages_def)
      from returns_chain [OF this] all show ?thesis by simp
    qed
  qed
  have d: "urls \<noteq> [] \<and> hd urls = LISTING_URL
         \<and> checkpoints w' = checkpoints w \<and> skipped_entries w' = skipped_entries w"
    if "get_listing_pages web w = Some (Inr urls, w')" for urls w'
    using listing_loop_Some [of web "[LISTING_URL]" w "(Inr urls, w')"] that
    by (auto simp: get_listing_pages_def)
  have e: "main web sch rd w = Some (Inl e, w')"
    if "get_listing_pages web w = Some (Inl e, w')" for e w'
    using that by (simp add: main_def)
  have f: "chain web (Suc k) url = Some ([url], Some e)" if "web url = Inl e" for e
    using that by (simp add: next_of_def)
  have g: "chain web (Suc k) url = Some ([url], None)"
    if "web url = Inr page \<and> find is_next_link (a_tags page) = None" for page
    using that by (simp add: next_of_def)
  have h: "chain web (Suc k) url =
           (case chain web k (BASE_URL @ href) of
              None \<Rightarrow> None
            | Some (us, r) \<Rightarrow> Some (url # us, r))"
    if "web url = Inr page \<and> find is_next_link (a_tags page) = Some a \<and> snd a = Some href"
    for page a href
    using that by (simp add: next_of_def)
  show ?thesis
    using a b c d e f g h by (intro conjI allI impI) blast+
qed

lemma demo_chain:
  "chain demo_web (Suc (Suc 0)) LISTING_URL = Some ([LISTING_URL, BASE_URL @ ''/p2''], None)"
  by (simp add: next_of_def demo_web_def is_next_link_def lower_def lower_char_def upper_chars_def
      lower_chars_def startswith_def url_eval)

lemma down_chain: "chain web_down (Suc 0) LISTING_URL = Some ([LISTING_URL], Some RequestException)"
  by (simp add: next_of_def web_down_def)

theorem listing_pages_follow_links_witness:
  "chain demo_web (Suc (Suc 0)) LISTING_URL = Some ([LISTING_URL, BASE_URL @ ''/p2''], None)
   \<and> get_listing_pages demo_web demo_world =
       Some (Inr [LISTING_URL, BASE_URL @ ''/p2''],
             demo_world\<lparr>io_log := io_log demo_world @ map Get [LISTING_URL, BASE_URL @ ''/p2'']\<rparr>)
   \<and> hd [LISTING_URL, BASE_URL @ ''/p2''] = LISTING_URL
   \<and> chain web_down (Suc 0) LISTING_URL = Some ([LISTING_URL], Some RequestException)
   \<and> main web_down (\<lambda>n ids. ids) plain_reader demo_world =
       Some (Inl RequestException, demo_world\<lparr>io_log := io_log demo_world @ map Get [LISTING_URL]\<rparr>)"
proof -
  note demo = listing_pages_follow_links
      [of demo_web "Suc (Suc 0)" demo_world "\<lambda>n ids. ids" plain_reader LISTING_URL 0]
  note dead = listing_pages_follow_links
      [of web_down "Suc 0" demo_world "\<lambda>n ids. ids" plain_reader LISTING_URL 0]
  have pages: "get_listing_pages demo_web demo_world =
       Some (Inr [LISTING_URL, BASE_URL @ ''/p2''],
             demo_world\<lparr>io_log := io_log demo_world @ map Get [LISTING_URL, BASE_URL @ ''/p2'']\<rparr>)
       \<and> [LISTING_URL, BASE_URL @ ''/p2''] \<noteq> [] \<and> hd [LISTING_URL, BASE_URL @ ''/p2''] = LISTING_URL"
    using demo [THEN conjunct1, rule_format, OF demo_chain] .
  have aborted: "get_listing_pages web_down demo_world =
       Some (Inl RequestException, demo_world\<lparr>io_log := io_log demo_world @ map Get [LISTING_URL]\<rparr>)
     \<and> main web_down (\<lambda>n ids. ids) plain_reader demo_world =
       Some (Inl RequestException, demo_world\<lparr>io_log := io_log demo_world @ map Get [LISTING_URL]\<rparr>)"
    using dead [THEN conjunct2, THEN conjunct1, rule_format, OF down_chain] .
  show ?thesis
    by (intro conjI demo_chain down_chain pages [THEN conjunct1]
        pages [THEN conjunct2, THEN conjunct2] aborted [THEN conjunct2])
qed

text \<open>
  C8 as stated fails: the paginator does not always return. On a web whose pages
  all carry a \<^verbatim>\<open>next 500\<close> link the loop never ends.
\<close>

theorem listing_pages_always_returns_counterexample:
  "get_listing_pages loop_web demo_world = None"
  using loop_web_never [of loop_web "[LISTING_URL]" demo_world]
  by (cases "get_listing_pages loop_web demo_world") (auto simp: get_listing_pages_def)

subsection \<open>Checkpoint Store\<close>

lemma digit_cases: "d < 10 \<Longrightarrow> d = 0 \<or> d = 1 \<or> d = 2 \<or> d = 3 \<or> d = 4 \<or> d = 5 \<or> d = 6 \<or> d = 7 \<or> d = 8 \<or> d = (9::nat)"
  by arith

lemma digit_char_props:
  assumes "d < 10"
  shows "is_digit (digit_char d)" and "digit_val (digit_char d) = d"
  using digit_cases [OF assms] by (auto simp: is_digit_def digit_char_def digit_val_def)

lemma is_digit_not_special:
  "is_digit c \<Longrightarrow> c \<noteq> CHR ''_'' \<and> c \<noteq> CHR ''.'' \<and> c \<noteq> CHR ''/'' \<and> c \<noteq> CHR ''-'' \<and> c \<noteq> CHR ''+'' \<and> \<not> num_space c"
  by (auto simp: is_digit_def num_space_def)

lemma str_nat_digits: "c \<in> set (str_nat n) \<Longrightarrow> is_digit c"
proof (induction n arbitrary: c rule: str_nat.induct)
  case (1 n)
  show ?case
  proof (cases "n < 10")
    case True
    with "1.prems" show ?thesis
      by (subst (asm) str_nat.simps) (simp add: digit_char_props)
  next
    case False
    with "1.prems" have "c \<in> set (str_nat (n div 10)) \<or> c = digit_char (n mod 10)"
      by (subst (asm) str_nat.simps) auto
    then show ?thesis
      using "1.IH" [OF False] by (auto simp: digit_char_props)
  qed
qed

lemma str_nat_nonempty: "str_nat n \<noteq> []"
  by (subst str_nat.simps) simp

lemma digits_val_snoc: "digits_val (ds @ [c]) = 10 * digits_val ds + digit_val c"
  by (simp add: digits_val_def)

lemma digits_val_str_nat: "digits_val (str_nat n) = n"
proof (induction n rule: str_nat.induct)
  case (1 n)
  show ?case
  proof (cases "n < 10")
    case True
    then show ?thesis
      by (subst str_nat.simps) (simp add: digits_val_def digit_char_props)
  next
    case False
    then show ?thesis
      using "1.IH" [OF False]
      by (subst str_nat.simps) (simp add: digits_val_snoc digit_char_props)
  qed
qed

lemma digitpart_from_digits:
  "\<forall>c \<in> set ds. is_digit c \<Longrightarrow> digitpart_from b ds = (b \<or> ds \<noteq> [])"
  by (induction ds arbitrary: b) auto

lemma digitpart_str_nat: "digitpart (str_nat n)"
  by (simp add: digitpart_def digitpart_from_digits str_nat_digits str_nat_nonempty)

lemma digitpart_val_str_nat: "digitpart_val (str_nat n) = n"
proof -
  have "filter is_digit (str_nat n) = str_nat n"
    by (simp add: str_nat_digits)
  then show ?thesis
    by (simp add: digitpart_val_def digits_val_str_nat)
qed

lemma num_strip_no_space:
  "s \<noteq> [] \<Longrightarrow> \<not> num_space (hd s) \<Longrightarrow> \<not> num_space (last s) \<Longrightarrow> num_strip s = s"
proof -
  assume a: "s \<noteq> []" "\<not> num_space (hd s)" "\<not> num_space (last s)"
  then have front: "dropWhile num_space s = s"
    by (cases s) auto
  from a have "rev s \<noteq> []" "\<not> num_space (hd (rev s))"
    by (simp_all add: hd_rev)
  then have "dropWhile num_space (rev s) = rev s"
    by (cases "rev s") auto
  with front show ?thesis
    by (simp add: num_strip_def)
qed

lemma str_int_chars: "c \<in> set (str_int n) \<Longrightarrow> is_digit c \<or> c = CHR ''-''"
  by (auto simp: str_int_def dest: str_nat_digits split: if_splits)

lemma str_int_nonempty: "str_int n \<noteq> []"
  by (simp add: str_int_def str_nat_nonempty)

lemma str_int_not_special:
  assumes "c \<in> set (str_int n)"
  shows "c \<noteq> CHR ''_'' \<and> c \<noteq> CHR ''.'' \<and> c \<noteq> CHR ''/'' \<and> \<not> num_space c"
proof -
  from str_int_chars [OF assms] show ?thesis
  proof
    assume "is_digit c"
    then show ?thesis
      using is_digit_not_special [of c] by blast
  next
    assume "c = CHR ''-''"
    then show ?thesis
      by (simp add: num_space_def)
  qed
qed

lemma num_strip_str_int: "num_strip (str_int n) = str_int n"
proof (rule num_strip_no_space)
  show "str_int n \<noteq> []" by (rule str_int_nonempty)
  have "hd (str_int n) \<in> set (str_int n)" "last (str_int n) \<in> set (str_int n)"
    using str_int_nonempty by simp_all
  then show "\<not> num_space (hd (str_int n))" "\<not> num_space (last (str_int n))"
    using str_int_not_special by blast+
qed

lemma py_int_str_int: "py_int (str_int n) = Inr n"
proof (cases "n < 0")
  case True
  then show ?thesis
    by (simp add: py_int_def num_strip_str_int)
       (simp add: str_int_def take_sign_def digitpart_str_nat digitpart_val_str_nat)
next
  case False
  obtain c cs where s: "str_nat (nat n) = c # cs"
    using str_nat_nonempty [of "nat n"] by (cases "str_nat (nat n)") auto
  then have "is_digit c"
    using str_nat_digits [of c "nat n"] by simp
  then have "c \<noteq> CHR ''-''" "c \<noteq> CHR ''+''"
    using is_digit_not_special by blast+
  then have "take_sign (str_nat (nat n)) = (False, str_nat (nat n))"
    by (simp add: take_sign_def s)
  with False show ?thesis
    by (simp add: py_int_def num_strip_str_int)
       (simp add: str_int_def digitpart_str_nat digitpart_val_str_nat)
qed

lemma split_on_absent: "sep \<notin> set s \<Longrightarrow> split_on sep s = [s]"
  by (induction s) auto

lemma split_on_first:
  "sep \<notin> set a \<Longrightarrow> split_on sep (a @ sep # b) = a # split_on sep b"
  by (induction a) auto

lemma split_on_nonempty: "split_on sep s \<noteq> []"
  by (induction s) (auto split: list.splits)

lemma basename_join: "CHR ''/'' \<notin> set name \<Longrightarrow> basename (path_join dir name) = name"
proof -
  assume a: "CHR ''/'' \<notin> set name"
  have "rev (path_join dir name) = rev name @ CHR ''/'' # rev dir"
    by (simp add: path_join_def)
  moreover have "takeWhile (\<lambda>c. c \<noteq> CHR ''/'') (rev name @ CHR ''/'' # rev dir) = rev name"
    using a by (auto simp: takeWhile_tail)
  ultimately show ?thesis
    by (simp add: basename_def)
qed

lemma checkpoint_name_no_slash: "CHR ''/'' \<notin> set (checkpoint_name n)"
  using str_int_not_special [of "CHR ''/''" n] by (auto simp: checkpoint_name_def)

lemma batch_num_of_checkpoint_path: "batch_num_of (checkpoint_path n) = Inr n"
proof -
  have b: "basename (checkpoint_path n) = checkpoint_name n"
    by (simp add: checkpoint_path_def basename_join checkpoint_name_no_slash)
  have us: "CHR ''_'' \<notin> set (str_int n @ ''.csv'')"
    using str_int_not_special [of "CHR ''_''" n] by auto
  have "checkpoint_name n = ''checkpoint'' @ CHR ''_'' # (str_int n @ ''.csv'')"
    by (simp add: checkpoint_name_def)
  then have s1: "split_on CHR ''_'' (checkpoint_name n) = [''checkpoint'', str_int n @ ''.csv'']"
    using split_on_first [of "CHR ''_''" "''checkpoint''" "str_int n @ ''.csv''"] split_on_absent [OF us]
    by simp
  have dot: "CHR ''.'' \<notin> set (str_int n)"
    using str_int_not_special [of "CHR ''.''" n] by auto
  have s2: "split_on CHR ''.'' (str_int n @ ''.csv'') = [str_int n, ''csv'']"
    using split_on_first [OF dot, of "''csv''"] by simp
  show ?thesis
    by (simp add: batch_num_of_def b s1 s2 py_int_str_int)
qed

lemma glob_match_checkpoint_name: "glob_match (checkpoint_name n)"
  using str_int_nonempty [of n]
  by (cases "str_int n") (auto simp: glob_match_def checkpoint_name_def startswith_def)


lemma foldl_add_completed:
  "foldl add_completed S fs = S \<union> {n. \<exists>f \<in> set fs. batch_num_of f = Inr n}"
  by (induction fs arbitrary: S) (auto simp: add_completed_def split: sum.splits)

lemma bex_image_Collect: "(\<exists>f \<in> g ` {x \<in> A. P x}. Q f) \<longleftrightarrow> (\<exists>x \<in> A. P x \<and> Q (g x))"
  by blast

lemma load_completed_batches_eq:
  "load_completed_batches w =
     {n. \<exists>name \<in> set (map fst (checkpoints w)).
           glob_match name \<and> batch_num_of (path_join checkpoint_dir name) = Inr n}"
proof -
  have gl: "set (glob_checkpoints w) =
          path_join checkpoint_dir ` {name \<in> set (map fst (checkpoints w)). glob_match name}"
    unfolding glob_checkpoints_def by (simp only: set_sort set_map set_filter set_remdups)
  have "load_completed_batches w = {n. \<exists>f \<in> set (glob_checkpoints w). batch_num_of f = Inr n}"
    unfolding load_completed_batches_def foldl_add_completed by (rule Un_empty_left)
  then show ?thesis
    by (simp only: gl bex_image_Collect)
qed

lemma present_completed:
  "map_of (checkpoints w) (checkpoint_name n) = Some content \<Longrightarrow> n \<in> load_completed_batches w"
proof -
  assume "map_of (checkpoints w) (checkpoint_name n) = Some content"
  then have "checkpoint_name n \<in> set (map fst (checkpoints w))"
    using map_of_SomeD [of "checkpoints w" "checkpoint_name n" content] by force
  then have "\<exists>name \<in> set (map fst (checkpoints w)).
           glob_match name \<and> batch_num_of (path_join checkpoint_dir name) = Inr n"
    using glob_match_checkpoint_name [of n] batch_num_of_checkpoint_path [of n]
    unfolding checkpoint_path_def by blast
  then show ?thesis
    unfolding load_completed_batches_eq by blast
qed

subsection \<open>Batch Scheduler\<close>

lemma batch_step_completed:
  assumes "batch_num_at bs i \<in> C"
  shows "batch_step web sch rd C bs all_ids i all_data w =
     (case map_of (checkpoints w) (checkpoint_name (batch_num_at bs i)) of
        None \<Rightarrow> (Inl FileNotFoundError, w\<lparr>io_log := io_log w @ [ReadCsv (checkpoint_path (batch_num_at bs i))]\<rparr>)
      | Some content \<Rightarrow>
          (case rd content of
             Inl e \<Rightarrow> (Inl e, w\<lparr>io_log := io_log w @ [ReadCsv (checkpoint_path (batch_num_at bs i))]\<rparr>)
           | Inr records \<Rightarrow>
               (Inr (all_data @ records),
                w\<lparr>io_log := io_log w @ [ReadCsv (checkpoint_path (batch_num_at bs i))]\<rparr>)))"
  using assms
  by (simp add: batch_step_def batch_num_at_def load_checkpoint_def Let_def
      split: option.splits sum.splits)

lemma batch_step_fresh:
  assumes "batch_num_at bs i \<notin> C"
  shows "batch_step web sch rd C bs all_ids i all_data w =
     (Inr (all_data @ map entry_dict (fetched web (sch (batch_num_at bs i) (batch_ids_at bs all_ids i)))),
      save_checkpoint (batch_num_at bs i)
        (fetched web (sch (batch_num_at bs i) (batch_ids_at bs all_ids i)))
        (w\<lparr>skipped_entries := skipped_entries w @
               filter (\<lambda>fid. entry_of web fid = None) (sch (batch_num_at bs i) (batch_ids_at bs all_ids i)),
            io_log := io_log w @
               map (\<lambda>fid. Get (entry_url fid)) (sch (batch_num_at bs i) (batch_ids_at bs all_ids i))\<rparr>))"
  using assms
  by (simp add: batch_step_def batch_num_at_def batch_ids_at_def run_pool_eq fetched_def Let_def)




lemma checkpoint_path_not_output: "\<not> is_output (ToCsv (checkpoint_path n) d)"
  by (simp add: is_output_def writes_to_def checkpoint_path_def path_join_def checkpoint_dir_def
      final_file_def skipped_file_def)

lemma not_output_simps [simp]: "\<not> is_output (Get u)" "\<not> is_output (ReadCsv p)"
  by (simp_all add: is_output_def writes_to_def)

lemma batch_step_events:
  assumes "batch_step web sch rd C bs all_ids i all_data w = (r, w')"
  shows "\<exists>evs. io_log w' = io_log w @ evs \<and> (\<forall>e \<in> set evs. \<not> is_output e)"
proof (cases "batch_num_at bs i \<in> C")
  case True
  with assms show ?thesis
    by (auto simp: batch_step_completed split: option.splits sum.splits)
next
  case False
  with assms show ?thesis
    by (auto simp: batch_step_fresh save_checkpoint_def checkpoint_path_not_output)
qed

lemma batch_loop_events:
  assumes "batch_loop web sch rd C bs all_ids is all_data w = (r, w')"
  shows "\<exists>evs. io_log w' = io_log w @ evs \<and> (\<forall>e \<in> set evs. \<not> is_output e)"
  using assms
proof (induction "is" arbitrary: all_data w)
  case Nil
  then show ?case by simp
next
  case (Cons i "is")
  obtain r1 w1 where step: "batch_step web sch rd C bs all_ids i all_data w = (r1, w1)"
    by (cases "batch_step web sch rd C bs all_ids i all_data w")
  from batch_step_events [OF step] obtain evs1 where
    e1: "io_log w1 = io_log w @ evs1" "\<forall>e \<in> set evs1. \<not> is_output e"
    by blast
  show ?case
  proof (cases r1)
    case (Inl e)
    with Cons.prems step have "w' = w1" by simp
    with e1 show ?thesis by blast
  next
    case (Inr ad1)
    with Cons.prems step have "batch_loop web sch rd C bs all_ids is ad1 w1 = (r, w')"
      by simp
    from Cons.IH [OF this] obtain evs2 where
      e2: "io_log w' = io_log w1 @ evs2" "\<forall>e \<in> set evs2. \<not> is_output e"
      by blast
    have "io_log w' = io_log w @ (evs1 @ evs2)"
      using e1 e2 by simp
    moreover have "\<forall>e \<in> set (evs1 @ evs2). \<not> is_output e"
      using e1 e2 by auto
    ultimately show ?thesis by blast
  qed
qed

lemma batch_skipped_events:
  assumes "batch_step web sch rd C bs all_ids i all_data w = (r, w')"
  shows "\<exists>sk. skipped_entries w' = skipped_entries w @ sk"
proof (cases "batch_num_at bs i \<in> C")
  case True
  with assms show ?thesis
    by (auto simp: batch_step_completed split: option.splits sum.splits)
next
  case False
  with assms show ?thesis
    by (auto simp: batch_step_fresh save_checkpoint_def)
qed

lemma extract_all_events:
  assumes "extract_all web pages all_ids w = (r, w')"
  shows "checkpoints w' = checkpoints w \<and> skipped_entries w' = skipped_entries w
       \<and> (\<exists>evs. io_log w' = io_log w @ evs \<and> (\<forall>e \<in> set evs. \<not> is_output e))"
  using assms
proof (induction pages arbitrary: all_ids w)
  case Nil
  then show ?case by simp
next
  case (Cons page pages)
  show ?case
  proof (cases "web page")
    case (Inl e)
    with Cons.prems show ?thesis
      by (auto simp: extract_ids_def requested_def)
  next
    case (Inr p)
    with Cons.prems have
      "extract_all web pages (all_ids @ collect_ids [] (li_anchor_texts p)) (requested page w) = (r, w')"
      by (simp add: extract_ids_def)
    from Cons.IH [OF this] show ?thesis
      by (auto simp: requested_def)
  qed
qed

lemma run_batches_events:
  assumes "run_batches web sch rd C bs all_ids w = (r, w')"
  shows "\<exists>evs. io_log w' = io_log w @ evs \<and> (\<forall>e \<in> set evs. \<not> is_output e)"
proof (cases "bs = 0")
  case True
  with assms show ?thesis by (simp add: run_batches_def)
next
  case False
  with assms show ?thesis
    using batch_loop_events [of web sch rd C bs all_ids "py_range (length all_ids) bs" "[]" w r w']
    by (simp add: run_batches_def)
qed

lemma main_after_listing_events:
  assumes "main_after_listing web sch rd pages w = (r, w')"
  shows "(\<forall>e. r = Inl e \<longrightarrow> (\<exists>evs. io_log w' = io_log w @ evs \<and> (\<forall>ev \<in> set evs. \<not> is_output ev)))
       \<and> (r = Inr () \<longrightarrow>
            (\<exists>pre all_data. io_log w' = io_log w @ pre @ [ToCsv final_file all_data] @
                 (if skipped_entries w' = [] then []
                  else [ToCsv skipped_file (map (\<lambda>fid. [(''Skipped_IDs'', Str fid)]) (skipped_entries w'))])
               \<and> (\<forall>ev \<in> set pre. \<not> is_output ev)))"
proof -
  obtain r1 w1 where x: "extract_all web pages [] w = (r1, w1)"
    by (cases "extract_all web pages [] w")
  from extract_all_events [OF x] obtain evs1 where
    e1: "io_log w1 = io_log w @ evs1" "\<forall>e \<in> set evs1. \<not> is_output e"
    by blast
  show ?thesis
  proof (cases r1)
    case (Inl e)
    with assms x have "r = Inl e" "w' = w1"
      by (simp_all add: main_after_listing_def)
    with e1 show ?thesis by auto
  next
    case (Inr all_ids)
    obtain r2 w2 where b: "run_batches web sch rd (load_completed_batches w1) 500 all_ids w1 = (r2, w2)"
      by (cases "run_batches web sch rd (load_completed_batches w1) 500 all_ids w1")
    from run_batches_events [OF b] obtain evs2 where
      e2: "io_log w2 = io_log w1 @ evs2" "\<forall>e \<in> set evs2. \<not> is_output e"
      by blast
    have pre: "io_log w2 = io_log w @ (evs1 @ evs2)" "\<forall>e \<in> set (evs1 @ evs2). \<not> is_output e"
      using e1 e2 by auto
    show ?thesis
    proof (cases r2)
      case (Inl e)
      with assms x Inr b have "r = Inl e" "w' = w2"
        by (simp_all add: main_after_listing_def)
      with pre show ?thesis by blast
    next
      case (Inr all_data)
      with assms x \<open>r1 = Inr all_ids\<close> b have rw: "r = Inr ()" "w' = write_outputs all_data w2"
        by (simp_all add: main_after_listing_def)
      have "io_log w' = io_log w @ (evs1 @ evs2) @ [ToCsv final_file all_data] @
                 (if skipped_entries w' = [] then []
                  else [ToCsv skipped_file (map (\<lambda>fid. [(''Skipped_IDs'', Str fid)]) (skipped_entries w'))])"
        using rw pre by (simp add: write_outputs_def)
      with rw pre(2) show ?thesis by blast
    qed
  qed
qed

lemma load_completed_cong:
  "checkpoints w' = checkpoints w \<Longrightarrow> load_completed_batches w' = load_completed_batches w"
  by (simp add: load_completed_batches_eq)

lemma load_completed_update:
  assumes "checkpoints w' = AList.update (checkpoint_name n) c (checkpoints w)"
  shows "load_completed_batches w' = insert n (load_completed_batches w)"
proof -
  have dom: "set (map fst (checkpoints w')) = insert (checkpoint_name n) (set (map fst (checkpoints w)))"
    using assms by (simp add: dom_update)
  have n: "glob_match (checkpoint_name n) \<and> batch_num_of (path_join checkpoint_dir (checkpoint_name n)) = Inr n"
    using glob_match_checkpoint_name [of n] batch_num_of_checkpoint_path [of n]
    by (simp add: checkpoint_path_def)
  show ?thesis
    unfolding load_completed_batches_eq dom using n by auto
qed

lemma fetched_empty: "fetched web fids = [] \<longleftrightarrow> (\<forall>fid \<in> set fids. entry_of web fid = None)"
  by (induction fids) (auto simp: fetched_def List.map_filter_simps split: option.splits)

lemma filter_all: "(\<forall>x \<in> set xs. P x) \<Longrightarrow> filter P xs = xs"
  by (induction xs) auto

lemma batch_step_all_skipped:
  assumes "batch_num_at bs i \<notin> C"
      and "fetched web (sch (batch_num_at bs i) (batch_ids_at bs all_ids i)) = []"
  shows "batch_step web sch rd C bs all_ids i all_data w =
           (Inr all_data,
            w\<lparr>skipped_entries := skipped_entries w @ sch (batch_num_at bs i) (batch_ids_at bs all_ids i),
              io_log := io_log w @
                map (\<lambda>fid. Get (entry_url fid)) (sch (batch_num_at bs i) (batch_ids_at bs all_ids i))\<rparr>)"
proof -
  have "filter (\<lambda>fid. entry_of web fid = None) (sch (batch_num_at bs i) (batch_ids_at bs all_ids i))
          = sch (batch_num_at bs i) (batch_ids_at bs all_ids i)"
    using assms(2) by (intro filter_all) (simp add: fetched_empty)
  then show ?thesis
    using assms by (simp add: batch_step_fresh save_checkpoint_def)
qed

lemma batch_step_completed_set:
  assumes "batch_step web sch rd C bs all_ids i all_data w = (Inr all_data', w')"
  shows "load_completed_batches w' = load_completed_batches w \<union> newly_completed web sch C bs all_ids [i]"
proof (cases "batch_num_at bs i \<in> C")
  case True
  with assms have "checkpoints w' = checkpoints w"
    by (auto simp: batch_step_completed split: option.splits sum.splits)
  from load_completed_cong [OF this] True show ?thesis
    by (simp add: newly_completed_def)
next
  case False
  show ?thesis
  proof (cases "fetched web (sch (batch_num_at bs i) (batch_ids_at bs all_ids i)) = []")
    case True
    with assms False have "checkpoints w' = checkpoints w"
      by (auto simp: batch_step_all_skipped)
    from load_completed_cong [OF this] True show ?thesis
      by (simp add: newly_completed_def)
  next
    case nonempty: False
    with assms False have
      "checkpoints w' = AList.update (checkpoint_name (batch_num_at bs i))
           (to_csv_entries (fetched web (sch (batch_num_at bs i) (batch_ids_at bs all_ids i))))
           (checkpoints w)"
      by (auto simp: batch_step_fresh save_checkpoint_def)
    from load_completed_update [OF this] False nonempty show ?thesis
      by (auto simp: newly_completed_def)
  qed
qed

lemma newly_completed_Cons:
  "newly_completed web sch C bs all_ids (i # is) =
     newly_completed web sch C bs all_ids [i] \<union> newly_completed web sch C bs all_ids is"
  by (auto simp: newly_completed_def)

lemma batch_loop_completed_set:
  assumes "batch_loop web sch rd C bs all_ids is all_data w = (Inr all_data', w')"
  shows "load_completed_batches w' = load_completed_batches w \<union> newly_completed web sch C bs all_ids is"
  using assms
proof (induction "is" arbitrary: all_data w)
  case Nil
  then show ?case by (simp add: newly_completed_def)
next
  case (Cons i "is")
  obtain r1 w1 where step0: "batch_step web sch rd C bs all_ids i all_data w = (r1, w1)"
    by (cases "batch_step web sch rd C bs all_ids i all_data w")
  from Cons.prems step0 obtain ad1 where r1: "r1 = Inr ad1"
    by (cases r1) simp_all
  from step0 r1 have step: "batch_step web sch rd C bs all_ids i all_data w = (Inr ad1, w1)"
    by simp
  from Cons.prems step have rest: "batch_loop web sch rd C bs all_ids is ad1 w1 = (Inr all_data', w')"
    by simp
  show ?case
    unfolding Cons.IH [OF rest] batch_step_completed_set [OF step] newly_completed_Cons [of _ _ _ _ _ i "is"]
    by blast
qed

lemma batch_num_at_inj:
  assumes "0 < bs" "i \<in> set (py_range n bs)" "j \<in> set (py_range n bs)"
      and "batch_num_at bs j = batch_num_at bs i"
  shows "j = i"
  using assms by (auto simp: py_range_def batch_num_at_def)






lemma checkpoint_name_1: "checkpoint_name 1 = ''checkpoint_1.csv''"
  by (simp add: checkpoint_name_def str_int_def str_nat.simps digit_char_def)



lemma demo_completed: "load_completed_batches demo_world = {}"
  by (simp add: load_completed_batches_eq demo_world_def)

lemma demo_entry_1:
  "entry_of demo_web ''FL0000000001'' =
     Some \<lparr>Flavonoid_ID = ''FL0000000001'', Systematic_Name = ''benzene'',
            SMILES = ''C1=CC=CC=C1'', Average_Mass = ''268''\<rparr>"
  by (simp add: entry_of_def fetch_entry_page [of demo_web "''FL0000000001''", OF demo_web_1] demo_fields)

lemma demo_entry_2: "entry_of demo_web ''FL0000000002'' = None"
  by (simp add: entry_of_def fetch_entry_page [of demo_web "''FL0000000002''", OF demo_web_2] scan_rows_Nil)

lemma demo_entry_3: "entry_of demo_web ''FL0000000003'' = None"
  by (simp add: entry_of_def fetch_entry_raise [of demo_web "''FL0000000003''", OF demo_web_3])


lemma py_range_2_2: "py_range (Suc (Suc 0)) 2 = [0]"
  by code_simp


lemma skipped_run:
  "run_batches demo_web (\<lambda>n ids. ids) plain_reader (load_completed_batches demo_world) 2
         [''FL0000000002'', ''FL0000000003''] demo_world =
     (Inr [], \<lparr>checkpoints = [], skipped_entries = [''FL0000000002'', ''FL0000000003''],
                io_log = [Get (entry_url ''FL0000000002''), Get (entry_url ''FL0000000003'')]\<rparr>)"
  unfolding demo_completed
  by (simp add: run_batches_def py_range_2_2 batch_step_def run_pool_eq
      List.map_filter_simps demo_entry_2 demo_entry_3 save_checkpoint_def demo_world_def)


text \<open>
  C7. \<^verbatim>\<open>save_checkpoint\<close> with an empty list changes nothing: no file, no event. So
  the turn of a batch that is not complete and whose fetches all end skipped
  (\<open>fetched\<close> is empty exactly when every identifier gives no record) only requests
  the pages and extends the skipped list; after a completed run the batch has no
  checkpoint file and is still not counted complete. And the turn of a batch that
  is not counted complete, in any later run, requests the page of every identifier
  of the batch again.
\<close>

theorem empty_batch_leaves_no_checkpoint:
  "save_checkpoint batch_id [] w = w
   \<and> (batch_num_at batch_size i \<notin> C
        \<and> fetched web (sch (batch_num_at batch_size i) (batch_ids_at batch_size all_ids i)) = [] \<longrightarrow>
        batch_step web sch rd C batch_size all_ids i all_data w =
          (Inr all_data,
           w\<lparr>skipped_entries := skipped_entries w
                 @ sch (batch_num_at batch_size i) (batch_ids_at batch_size all_ids i),
             io_log := io_log w
                 @ map (\<lambda>fid. Get (entry_url fid))
                       (sch (batch_num_at batch_size i) (batch_ids_at batch_size all_ids i))\<rparr>))
   \<and> (0 < batch_size
        \<and> run_batches web sch rd (load_completed_batches w) batch_size all_ids w = (Inr all_data, w')
        \<and> i \<in> set (py_range (length all_ids) batch_size)
        \<and> batch_num_at batch_size i \<notin> load_completed_batches w
        \<and> fetched web (sch (batch_num_at batch_size i) (batch_ids_at batch_size all_ids i)) = [] \<longrightarrow>
        batch_num_at batch_size i \<notin> load_completed_batches w'
        \<and> map_of (checkpoints w') (checkpoint_name (batch_num_at batch_size i)) = None)
   \<and> (batch_num_at batch_size i \<notin> C' \<longrightarrow>
        (\<exists>all_data2 w3 saved.
           batch_step web2 sch2 rd2 C' batch_size all_ids i all_data1 w2 = (Inr all_data2, w3)
           \<and> io_log w3 = io_log w2
                 @ map (\<lambda>fid. Get (entry_url fid))
                       (sch2 (batch_num_at batch_size i) (batch_ids_at batch_size all_ids i))
                 @ saved))
   \<and> (fetched web fids = [] \<longleftrightarrow> (\<forall>fid \<in> set fids. entry_of web fid = None))"
proof -
  let ?bn = "batch_num_at batch_size i"
  have noop: "save_checkpoint batch_id [] w = w"
    by (simp add: save_checkpoint_def)
  have step: "?bn \<notin> C
        \<and> fetched web (sch ?bn (batch_ids_at batch_size all_ids i)) = [] \<longrightarrow>
        batch_step web sch rd C batch_size all_ids i all_data w =
          (Inr all_data,
           w\<lparr>skipped_entries := skipped_entries w @ sch ?bn (batch_ids_at batch_size all_ids i),
             io_log := io_log w
                 @ map (\<lambda>fid. Get (entry_url fid)) (sch ?bn (batch_ids_at batch_size all_ids i))\<rparr>)"
    using batch_step_all_skipped by blast
  have run: "?bn \<notin> load_completed_batches w'
        \<and> map_of (checkpoints w') (checkpoint_name ?bn) = None"
    if pos: "0 < batch_size"
    and r: "run_batches web sch rd (load_completed_batches w) batch_size all_ids w = (Inr all_data, w')"
    and i: "i \<in> set (py_range (length all_ids) batch_size)"
    and notin: "?bn \<notin> load_completed_batches w"
    and empty: "fetched web (sch ?bn (batch_ids_at batch_size all_ids i)) = []"
  proof -
    from pos r have loop: "batch_loop web sch rd (load_completed_batches w) batch_size all_ids
                       (py_range (length all_ids) batch_size) [] w = (Inr all_data, w')"
      by (simp add: run_batches_def)
    have "?bn \<notin> newly_completed web sch (load_completed_batches w) batch_size all_ids
                    (py_range (length all_ids) batch_size)"
    proof
      assume "?bn \<in> newly_completed web sch (load_completed_batches w) batch_size all_ids
                    (py_range (length all_ids) batch_size)"
      then obtain j where j: "j \<in> set (py_range (length all_ids) batch_size)"
          "batch_num_at batch_size j = ?bn"
          "fetched web (sch (batch_num_at batch_size j) (batch_ids_at batch_size all_ids j)) \<noteq> []"
        unfolding newly_completed_def by auto
      from batch_num_at_inj [OF pos i j(1) j(2)] have "j = i" .
      with j(3) empty show False by simp
    qed
    with notin have a: "?bn \<notin> load_completed_batches w'"
      unfolding batch_loop_completed_set [OF loop] by blast
    have "map_of (checkpoints w') (checkpoint_name ?bn) = None"
    proof (cases "map_of (checkpoints w') (checkpoint_name ?bn)")
      case None
      then show ?thesis .
    next
      case (Some content)
      from present_completed [OF this] a show ?thesis by simp
    qed
    with a show ?thesis by simp
  qed
  then have run': "0 < batch_size
        \<and> run_batches web sch rd (load_completed_batches w) batch_size all_ids w = (Inr all_data, w')
        \<and> i \<in> set (py_range (length all_ids) batch_size)
        \<and> ?bn \<notin> load_completed_batches w
        \<and> fetched web (sch ?bn (batch_ids_at batch_size all_ids i)) = [] \<longrightarrow>
        ?bn \<notin> load_completed_batches w'
        \<and> map_of (checkpoints w') (checkpoint_name ?bn) = None"
    by blast
  have again: "?bn \<notin> C' \<longrightarrow> (\<exists>all_data2 w3 saved.
           batch_step web2 sch2 rd2 C' batch_size all_ids i all_data1 w2 = (Inr all_data2, w3)
           \<and> io_log w3 = io_log w2
                 @ map (\<lambda>fid. Get (entry_url fid)) (sch2 ?bn (batch_ids_at batch_size all_ids i))
                 @ saved)"
    by (simp add: batch_step_fresh save_checkpoint_def)
  show ?thesis
    by (intro conjI noop step run' again fetched_empty)
qed

theorem empty_batch_leaves_no_checkpoint_witness:
  "(0::nat) < 2
   \<and> run_batches demo_web (\<lambda>n ids. ids) plain_reader (load_completed_batches demo_world) 2
         [''FL0000000002'', ''FL0000000003''] demo_world =
     (Inr [], \<lparr>checkpoints = [], skipped_entries = [''FL0000000002'', ''FL0000000003''],
                io_log = [Get (entry_url ''FL0000000002''), Get (entry_url ''FL0000000003'')]\<rparr>)
   \<and> 0 \<in> set (py_range (length [''FL0000000002'', ''FL0000000003'']) 2)
   \<and> batch_num_at 2 0 \<notin> load_completed_batches demo_world
   \<and> fetched demo_web (batch_ids_at 2 [''FL0000000002'', ''FL0000000003''] 0) = []
   \<and> batch_num_at 2 0 \<notin> load_completed_batches
         \<lparr>checkpoints = [], skipped_entries = [''FL0000000002'', ''FL0000000003''],
           io_log = [Get (entry_url ''FL0000000002''), Get (entry_url ''FL0000000003'')]\<rparr>
   \<and> save_checkpoint 1 [] demo_world = demo_world"
proof -
  have pos: "(0::nat) < 2" by simp
  have first: "0 \<in> set (py_range (length [''FL0000000002'', ''FL0000000003'']) 2)"
    by (simp add: py_range_2_2)
  have notin: "batch_num_at 2 0 \<notin> load_completed_batches demo_world"
    by (simp add: demo_completed)
  have empty: "fetched demo_web (batch_ids_at 2 [''FL0000000002'', ''FL0000000003''] 0) = []"
    by (simp add: fetched_def batch_ids_at_def List.map_filter_simps demo_entry_2 demo_entry_3)
  note th = empty_batch_leaves_no_checkpoint
      [where batch_id = 1 and w = demo_world and batch_size = 2 and i = 0 and web = demo_web
         and sch = "\<lambda>n ids. ids" and all_ids = "[''FL0000000002'', ''FL0000000003'']"
         and rd = plain_reader and all_data = "[]"
         and w' = "\<lparr>checkpoints = [], skipped_entries = [''FL0000000002'', ''FL0000000003''],
            io_log = [Get (entry_url ''FL0000000002''), Get (entry_url ''FL0000000003'')]\<rparr>"]
  have after: "batch_num_at 2 0 \<notin> load_completed_batches
         \<lparr>checkpoints = [], skipped_entries = [''FL0000000002'', ''FL0000000003''],
           io_log = [Get (entry_url ''FL0000000002''), Get (entry_url ''FL0000000003'')]\<rparr>"
    using th [THEN conjunct2, THEN conjunct2, THEN conjunct1] pos skipped_run first notin empty
    by blast
  have noop: "save_checkpoint 1 [] demo_world = demo_world"
    using th by (rule conjunct1)
  show ?thesis
    by (intro conjI pos skipped_run first notin empty after noop)
qed

lemma writes_to_simps [simp]:
  "writes_to p (ToCsv q d) = (q = p)" "\<not> writes_to p (Get u)" "\<not> writes_to p (ReadCsv q)"
  by (simp_all add: writes_to_def)

lemma filter_no_output:
  "\<forall>ev \<in> set evs. \<not> is_output ev \<Longrightarrow>
     filter (writes_to final_file) evs = [] \<and> filter (writes_to skipped_file) evs = []"
  by (induction evs) (auto simp: is_output_def)

text \<open>
  C9. A run that reaches its end writes the merged table once, as the last event
  but for the skipped identifiers, whatever was collected (an empty result set is
  written too); it writes the skipped identifiers once when the skipped list is
  not empty and not at all when it is empty; and nothing before the end writes
  either file. A run that an exception ends writes neither.
\<close>

theorem final_artifacts_written_once:
  "(main web sch rd w = Some (Inr (), w') \<longrightarrow>
      (\<exists>pre all_data.
          io_log w' = io_log w @ pre @ [ToCsv final_file all_data] @
             (if skipped_entries w' = [] then []
              else [ToCsv skipped_file (map (\<lambda>fid. [(''Skipped_IDs'', Str fid)]) (skipped_entries w'))])
          \<and> (\<forall>ev \<in> set pre. \<not> is_output ev))
      \<and> length (filter (writes_to final_file) (drop (length (io_log w)) (io_log w'))) = 1
      \<and> length (filter (writes_to skipped_file) (drop (length (io_log w)) (io_log w')))
          = (if skipped_entries w' = [] then 0 else 1))
   \<and> (main web sch rd w = Some (Inl e, w') \<longrightarrow>
        (\<exists>evs. io_log w' = io_log w @ evs \<and> (\<forall>ev \<in> set evs. \<not> is_output ev)))
   \<and> write_outputs [] w0 =
        w0\<lparr>io_log := io_log w0 @ [ToCsv final_file []] @
              (if skipped_entries w0 = [] then []
               else [ToCsv skipped_file (map (\<lambda>fid. [(''Skipped_IDs'', Str fid)]) (skipped_entries w0))])\<rparr>"
proof -
  have split_main: "\<exists>pages w1 evs0. main_after_listing web sch rd pages w1 = (r, w')
                       \<and> io_log w1 = io_log w @ evs0 \<and> (\<forall>ev \<in> set evs0. \<not> is_output ev)"
    if m: "main web sch rd w = Some (r, w')"
      and ev: "\<And>x w2. get_listing_pages web w = Some (Inl x, w2) \<Longrightarrow>
                   \<exists>pages w1 evs0. main_after_listing web sch rd pages w1 = (r, w')
                       \<and> io_log w1 = io_log w @ evs0 \<and> (\<forall>ev \<in> set evs0. \<not> is_output ev)"
    for r
  proof (cases "get_listing_pages web w")
    case None
    with m show ?thesis by (simp add: main_def)
  next
    case (Some y)
    obtain r0 w1 where y: "y = (r0, w1)" by (cases y)
    from Some y have ll: "listing_loop web [LISTING_URL] w = Some (r0, w1)"
      by (simp add: get_listing_pages_def)
    from listing_loop_Some [OF ll] obtain evs0 where
      e0: "io_log w1 = io_log w @ evs0" "\<forall>ev \<in> set evs0. \<exists>u. ev = Get u"
      by auto
    then have no: "\<forall>ev \<in> set evs0. \<not> is_output ev"
      by auto
    show ?thesis
    proof (cases r0)
      case (Inl x)
      with Some y ev show ?thesis by blast
    next
      case (Inr pages)
      with m Some y have "main_after_listing web sch rd pages w1 = (r, w')"
        by (simp add: main_def)
      with e0(1) no show ?thesis by blast
    qed
  qed
  have ok: "(\<exists>pre all_data.
          io_log w' = io_log w @ pre @ [ToCsv final_file all_data] @
             (if skipped_entries w' = [] then []
              else [ToCsv skipped_file (map (\<lambda>fid. [(''Skipped_IDs'', Str fid)]) (skipped_entries w'))])
          \<and> (\<forall>ev \<in> set pre. \<not> is_output ev))
      \<and> length (filter (writes_to final_file) (drop (length (io_log w)) (io_log w'))) = 1
      \<and> length (filter (writes_to skipped_file) (drop (length (io_log w)) (io_log w')))
          = (if skipped_entries w' = [] then 0 else 1)"
    if m: "main web sch rd w = Some (Inr (), w')"
  proof -
    have "\<exists>pages w1 evs0. main_after_listing web sch rd pages w1 = (Inr (), w')
                       \<and> io_log w1 = io_log w @ evs0 \<and> (\<forall>ev \<in> set evs0. \<not> is_output ev)"
      using m by (rule split_main) (use m in \<open>simp add: main_def\<close>)
    then obtain pages w1 evs0 where
      al: "main_after_listing web sch rd pages w1 = (Inr (), w')" and
      e0: "io_log w1 = io_log w @ evs0" "\<forall>ev \<in> set evs0. \<not> is_output ev"
      by blast
    from main_after_listing_events [OF al] obtain pre1 all_data where
      e1: "io_log w' = io_log w1 @ pre1 @ [ToCsv final_file all_data] @
             (if skipped_entries w' = [] then []
              else [ToCsv skipped_file (map (\<lambda>fid. [(''Skipped_IDs'', Str fid)]) (skipped_entries w'))])"
        "\<forall>ev \<in> set pre1. \<not> is_output ev"
      by auto
    let ?tail = "[ToCsv final_file all_data] @
             (if skipped_entries w' = [] then []
              else [ToCsv skipped_file (map (\<lambda>fid. [(''Skipped_IDs'', Str fid)]) (skipped_entries w'))])"
    have log: "io_log w' = io_log w @ (evs0 @ pre1) @ ?tail"
      using e0(1) e1(1) by simp
    have no: "\<forall>ev \<in> set (evs0 @ pre1). \<not> is_output ev"
      using e0(2) e1(2) by auto
    have new: "drop (length (io_log w)) (io_log w') = (evs0 @ pre1) @ ?tail"
      by (subst log) simp
    have names: "skipped_file \<noteq> final_file"
      by (simp add: skipped_file_def final_file_def)
    have c1: "length (filter (writes_to final_file) (drop (length (io_log w)) (io_log w'))) = 1"
      unfolding new using filter_no_output [OF no] names by simp
    have c2: "length (filter (writes_to skipped_file) (drop (length (io_log w)) (io_log w')))
          = (if skipped_entries w' = [] then 0 else 1)"
      unfolding new using filter_no_output [OF no] names by simp
    from log no have "\<exists>pre all_data.
          io_log w' = io_log w @ pre @ [ToCsv final_file all_data] @
             (if skipped_entries w' = [] then []
              else [ToCsv skipped_file (map (\<lambda>fid. [(''Skipped_IDs'', Str fid)]) (skipped_entries w'))])
          \<and> (\<forall>ev \<in> set pre. \<not> is_output ev)"
      by blast
    with c1 c2 show ?thesis by blast
  qed
  have bad: "\<exists>evs. io_log w' = io_log w @ evs \<and> (\<forall>ev \<in> set evs. \<not> is_output ev)"
    if m: "main web sch rd w = Some (Inl e, w')"
  proof (cases "get_listing_pages web w")
    case None
    with m show ?thesis by (simp add: main_def)
  next
    case (Some y)
    obtain r0 w1 where y: "y = (r0, w1)" by (cases y)
    from Some y have ll: "listing_loop web [LISTING_URL] w = Some (r0, w1)"
      by (simp add: get_listing_pages_def)
    from listing_loop_Some [OF ll] obtain evs0 where
      e0: "io_log w1 = io_log w @ evs0" "\<forall>ev \<in> set evs0. \<exists>u. ev = Get u"
      by auto
    then have no: "\<forall>ev \<in> set evs0. \<not> is_output ev"
      by auto
    show ?thesis
    proof (cases r0)
      case (Inl x)
      with m Some y have "w' = w1" by (simp add: main_def)
      with e0(1) no show ?thesis by blast
    next
      case (Inr pages)
      with m Some y have al: "main_after_listing web sch rd pages w1 = (Inl e, w')"
        by (simp add: main_def)
      from main_after_listing_events [OF al] obtain evs1 where
        e1: "io_log w' = io_log w1 @ evs1" "\<forall>ev \<in> set evs1. \<not> is_output ev"
        by auto
      have "io_log w' = io_log w @ (evs0 @ evs1)"
        using e0(1) e1(1) by simp
      moreover have "\<forall>ev \<in> set (evs0 @ evs1). \<not> is_output ev"
        using no e1(2) by auto
      ultimately show ?thesis by blast
    qed
  qed
  have empty: "write_outputs [] w0 =
        w0\<lparr>io_log := io_log w0 @ [ToCsv final_file []] @
              (if skipped_entries w0 = [] then []
               else [ToCsv skipped_file (map (\<lambda>fid. [(''Skipped_IDs'', Str fid)]) (skipped_entries w0))])\<rparr>"
    by (simp add: write_outputs_def)
  show ?thesis
    using ok bad empty by (intro conjI impI) blast+
qed

lemma empty_listing:
  "get_listing_pages empty_web demo_world = Some (Inr [LISTING_URL], requested LISTING_URL demo_world)"
  by (simp add: get_listing_pages_def listing_loop.simps empty_web_def)

lemma empty_main:
  "main empty_web (\<lambda>n ids. ids) plain_reader demo_world =
     Some (Inr (), \<lparr>checkpoints = [], skipped_entries = [],
                     io_log = [Get LISTING_URL, Get LISTING_URL, ToCsv final_file []]\<rparr>)"
  unfolding main_def empty_listing
  by (simp add: main_after_listing_def extract_ids_def empty_web_def requested_def demo_world_def
      run_batches_def py_range_def write_outputs_def)

lemma no_checkpoints_completed:
  "load_completed_batches \<lparr>checkpoints = [], skipped_entries = sk, io_log = evs\<rparr> = {}"
  by (simp add: load_completed_batches_eq)

lemma py_range_4_500: "py_range (Suc (Suc (Suc (Suc 0)))) 500 = [0]"
  by (simp add: py_range_def)

lemma demo_extract:
  "extract_all demo_web [LISTING_URL, BASE_URL @ ''/p2''] [] w =
     (Inr [''FL0000000001'', ''FL0000000002'', ''FL0000000001'', ''FL0000000003''],
      w\<lparr>io_log := io_log w @ [Get LISTING_URL, Get (BASE_URL @ ''/p2'')]\<rparr>)"
  by (simp add: extract_ids_def demo_web_def requested_def url_eval valid_id_def startswith_def
      strip_def isspace_def Let_def)

lemma demo_batches:
  "run_batches demo_web (\<lambda>n ids. ids) plain_reader {} 500
     [''FL0000000001'', ''FL0000000002'', ''FL0000000001'', ''FL0000000003'']
     \<lparr>checkpoints = [], skipped_entries = [], io_log = evs\<rparr> =
   (Inr [[(''Flavonoid_ID'', Str ''FL0000000001''), (''Systematic_Name'', Str ''benzene''),
          (''SMILES'', Str ''C1=CC=CC=C1''), (''Average_Mass'', Str ''268'')],
         [(''Flavonoid_ID'', Str ''FL0000000001''), (''Systematic_Name'', Str ''benzene''),
          (''SMILES'', Str ''C1=CC=CC=C1''), (''Average_Mass'', Str ''268'')]],
    \<lparr>checkpoints =
          [(''checkpoint_1.csv'',
            [[''Flavonoid_ID'', ''Systematic_Name'', ''SMILES'', ''Average_Mass''],
             [''FL0000000001'', ''benzene'', ''C1=CC=CC=C1'', ''268''],
             [''FL0000000001'', ''benzene'', ''C1=CC=CC=C1'', ''268'']])],
      skipped_entries = [''FL0000000002'', ''FL0000000003''],
      io_log = evs @
          [Get (entry_url ''FL0000000001''), Get (entry_url ''FL0000000002''),
           Get (entry_url ''FL0000000001''), Get (entry_url ''FL0000000003''),
           ToCsv (checkpoint_path 1)
             [[(''Flavonoid_ID'', Str ''FL0000000001''), (''Systematic_Name'', Str ''benzene''),
               (''SMILES'', Str ''C1=CC=CC=C1''), (''Average_Mass'', Str ''268'')],
              [(''Flavonoid_ID'', Str ''FL0000000001''), (''Systematic_Name'', Str ''benzene''),
               (''SMILES'', Str ''C1=CC=CC=C1''), (''Average_Mass'', Str ''268'')]]]\<rparr>)"
  by (simp add: run_batches_def py_range_4_500 batch_step_def run_pool_eq List.map_filter_simps
      demo_entry_1 demo_entry_2 demo_entry_3 save_checkpoint_def checkpoint_name_1
      to_csv_entries_def entry_columns_def entry_values_def entry_dict_def)

lemma demo_main:
  "main demo_web (\<lambda>n ids. ids) plain_reader demo_world =
     Some (Inr (),
       \<lparr>checkpoints =
          [(''checkpoint_1.csv'',
            [[''Flavonoid_ID'', ''Systematic_Name'', ''SMILES'', ''Average_Mass''],
             [''FL0000000001'', ''benzene'', ''C1=CC=CC=C1'', ''268''],
             [''FL0000000001'', ''benzene'', ''C1=CC=CC=C1'', ''268'']])],
        skipped_entries = [''FL0000000002'', ''FL0000000003''],
        io_log =
          [Get LISTING_URL, Get (BASE_URL @ ''/p2''), Get LISTING_URL, Get (BASE_URL @ ''/p2''),
           Get (entry_url ''FL0000000001''), Get (entry_url ''FL0000000002''),
           Get (entry_url ''FL0000000001''), Get (entry_url ''FL0000000003''),
           ToCsv (checkpoint_path 1)
             [[(''Flavonoid_ID'', Str ''FL0000000001''), (''Systematic_Name'', Str ''benzene''),
               (''SMILES'', Str ''C1=CC=CC=C1''), (''Average_Mass'', Str ''268'')],
              [(''Flavonoid_ID'', Str ''FL0000000001''), (''Systematic_Name'', Str ''benzene''),
               (''SMILES'', Str ''C1=CC=CC=C1''), (''Average_Mass'', Str ''268'')]],
           ToCsv final_file
             [[(''Flavonoid_ID'', Str ''FL0000000001''), (''Systematic_Name'', Str ''benzene''),
               (''SMILES'', Str ''C1=CC=CC=C1''), (''Average_Mass'', Str ''268'')],
              [(''Flavonoid_ID'', Str ''FL0000000001''), (''Systematic_Name'', Str ''benzene''),
               (''SMILES'', Str ''C1=CC=CC=C1''), (''Average_Mass'', Str ''268'')]],
           ToCsv skipped_file
             [[(''Skipped_IDs'', Str ''FL0000000002'')], [(''Skipped_IDs'', Str ''FL0000000003'')]]]\<rparr>)"
proof -
  have x: "extract_all demo_web [LISTING_URL, BASE_URL @ ''/p2''] []
             \<lparr>checkpoints = [], skipped_entries = [],
               io_log = [Get LISTING_URL, Get (BASE_URL @ ''/p2'')]\<rparr> =
     (Inr [''FL0000000001'', ''FL0000000002'', ''FL0000000001'', ''FL0000000003''],
      \<lparr>checkpoints = [], skipped_entries = [],
        io_log = [Get LISTING_URL, Get (BASE_URL @ ''/p2''), Get LISTING_URL, Get (BASE_URL @ ''/p2'')]\<rparr>)"
    by (simp only: demo_extract) simp
  show ?thesis
    unfolding main_def demo_listing
    by (simp only: option.case prod.case sum.case main_after_listing_def x
          no_checkpoints_completed demo_batches)
       (simp add: write_outputs_def)
qed

theorem final_artifacts_written_once_witness:
  "main empty_web (\<lambda>n ids. ids) plain_reader demo_world =
     Some (Inr (), \<lparr>checkpoints = [], skipped_entries = [],
                     io_log = [Get LISTING_URL, Get LISTING_URL, ToCsv final_file []]\<rparr>)
   \<and> length (filter (writes_to final_file) [Get LISTING_URL, Get LISTING_URL, ToCsv final_file []]) = 1
   \<and> length (filter (writes_to skipped_file) [Get LISTING_URL, Get LISTING_URL, ToCsv final_file []]) = 0
   \<and> (\<exists>w'. main demo_web (\<lambda>n ids. ids) plain_reader demo_world = Some (Inr (), w')
          \<and> skipped_entries w' = [''FL0000000002'', ''FL0000000003'']
          \<and> length (filter (writes_to final_file) (io_log w')) = 1
          \<and> length (filter (writes_to skipped_file) (io_log w')) = 1)
   \<and> main web_down (\<lambda>n ids. ids) plain_reader demo_world =
       Some (Inl RequestException, \<lparr>checkpoints = [], skipped_entries = [], io_log = [Get LISTING_URL]\<rparr>)"
proof -
  note e = final_artifacts_written_once
      [where web = empty_web and sch = "\<lambda>n ids. ids" and rd = plain_reader and w = demo_world
         and w' = "\<lparr>checkpoints = [], skipped_entries = [],
                     io_log = [Get LISTING_URL, Get LISTING_URL, ToCsv final_file []]\<rparr>",
       THEN conjunct1, rule_format, OF empty_main]
  have e1: "length (filter (writes_to final_file) [Get LISTING_URL, Get LISTING_URL, ToCsv final_file []]) = 1"
    using e [THEN conjunct2, THEN conjunct1] by (simp add: demo_world_def)
  have e2: "length (filter (writes_to skipped_file) [Get LISTING_URL, Get LISTING_URL, ToCsv final_file []]) = 0"
    using e [THEN conjunct2, THEN conjunct2] by (simp add: demo_world_def)
  note d = final_artifacts_written_once
      [where web = demo_web and sch = "\<lambda>n ids. ids" and rd = plain_reader and w = demo_world,
       THEN conjunct1, rule_format, OF demo_main]
  have d': "\<exists>w'. main demo_web (\<lambda>n ids. ids) plain_reader demo_world = Some (Inr (), w')
          \<and> skipped_entries w' = [''FL0000000002'', ''FL0000000003'']
          \<and> length (filter (writes_to final_file) (io_log w')) = 1
          \<and> length (filter (writes_to skipped_file) (io_log w')) = 1"
    using d [THEN conjunct2] demo_main by (simp add: demo_world_def)
  have down: "main web_down (\<lambda>n ids. ids) plain_reader demo_world =
       Some (Inl RequestException, \<lparr>checkpoints = [], skipped_entries = [], io_log = [Get LISTING_URL]\<rparr>)"
    by (simp add: main_def get_listing_pages_def listing_loop.simps web_down_def requested_def
        demo_world_def)
  show ?thesis
    by (intro conjI empty_main e1 e2 d' down)
qed

subsection \<open>Checkpoint round trip\<close>

lemma length_infer_column [simp]: "length (infer_column col) = length col"
  by (simp add: infer_column_def Let_def)





















subsection \<open>Identifier Extractor\<close>

text \<open>
  C3. For the texts of the list-item anchors of a listing page, each stripped of
  surrounding whitespace: the Identifier Extractor returns exactly those that have
  length 12 and start with \<^verbatim>\<open>FL\<close>, in the order met and as often as they occur. So a
  token is in the returned list if and only if it has length 12 and the prefix, and
  \<^verbatim>\<open>extract_ids\<close> returns this list for every page that can be fetched.
\<close>

theorem extract_ids_accepts_iff_valid:
  "collect_ids [] texts = filter (\<lambda>fid. length fid = 12 \<and> take 2 fid = ''FL'') (map strip texts)
   \<and> (\<forall>text \<in> set texts.
        strip text \<in> set (collect_ids [] texts) \<longleftrightarrow> length (strip text) = 12 \<and> take 2 (strip text) = ''FL'')
   \<and> (\<forall>fid. count_list (collect_ids [] texts) fid =
        (if length fid = 12 \<and> take 2 fid = ''FL'' then count_list (map strip texts) fid else 0))
   \<and> (web url = Inr page \<longrightarrow>
        fst (extract_ids web url w) =
          Inr (filter (\<lambda>fid. length fid = 12 \<and> take 2 fid = ''FL'') (map strip (li_anchor_texts page))))"
proof -
  have v: "valid_id = (\<lambda>fid. length fid = 12 \<and> take 2 fid = ''FL'')"
    by (rule ext) (simp add: valid_id_def startswith_def numeral_2_eq_2)
  have eq: "collect_ids [] ts = filter (\<lambda>fid. length fid = 12 \<and> take 2 fid = ''FL'') (map strip ts)" for ts
    by (simp add: collect_ids_filter v)
  have cnt: "count_list (filter P xs) x = (if P x then count_list xs x else 0)" for P and xs :: "string list" and x
    by (induction xs) auto
  show ?thesis
    by (auto simp: eq cnt extract_ids_def)
qed

theorem extract_ids_accepts_iff_valid_witness:
  "demo_web LISTING_URL =
     Inr \<lparr>a_tags = [(Some ''previous 500'', Some ''/p0''), (None, Some ''/x''), (Some ''Next 500'', Some ''/p2'')],
          li_anchor_texts = ['' FL0000000001 '', ''Main page'', ''FL0000000002'', ''FL0000000001'', ''fl0000000004''],
          table_rows = []\<rparr>
   \<and> '' FL0000000001 '' \<in> set ['' FL0000000001 '', ''Main page'', ''FL0000000002'', ''FL0000000001'', ''fl0000000004'']
   \<and> fst (extract_ids demo_web LISTING_URL demo_world) = Inr [''FL0000000001'', ''FL0000000002'', ''FL0000000001'']
   \<and> collect_ids [] ['' FL0000000001 '', ''Main page'', ''FL0000000002'', ''FL0000000001'', ''fl0000000004'']
       = [''FL0000000001'', ''FL0000000002'', ''FL0000000001'']"
  using extract_ids_accepts_iff_valid
    [of "['' FL0000000001 '', ''Main page'', ''FL0000000002'', ''FL0000000001'', ''fl0000000004'']"
        demo_web LISTING_URL
        "\<lparr>a_tags = [(Some ''previous 500'', Some ''/p0''), (None, Some ''/x''), (Some ''Next 500'', Some ''/p2'')],
          li_anchor_texts = ['' FL0000000001 '', ''Main page'', ''FL0000000002'', ''FL0000000001'', ''fl0000000004''],
          table_rows = []\<rparr>"
        demo_world]
  by (simp add: demo_web_def strip_def isspace_def)

end
